theory Spec2Isabelle
  imports Complex_Main "HOL-Library.AList" "HOL-Library.Char_ord" "HOL-Library.List_Lexorder"
    "HOL-Library.Multiset"
begin

section \<open>Python values used by \<open>monitor/update.py\<close>\<close>

text \<open>
  A Python \<open>float\<close> is modelled with its three special values and exact arithmetic on the
  finite ones: the operations of this section do not round to binary64, do not overflow
  to infinity and do not keep the sign of zero. They follow CPython on the special values;
  true division by a zero divisor raises \<open>ZeroDivisionError\<close> whatever the dividend is.
  Where the weights are parsed, summed and divided, the result of each operation is
  rounded by a function that is a parameter of the model.
\<close>

datatype pyfloat = Finite real | PosInf | NegInf | NaN

datatype py_error =
    ZeroDivisionError
  | IndexError
  | KeyError string
  | TypeError
  | ValueError
  | ProviderError string

fun fneg :: "pyfloat \<Rightarrow> pyfloat" where
  "fneg (Finite a) = Finite (- a)"
| "fneg PosInf = NegInf"
| "fneg NegInf = PosInf"
| "fneg NaN = NaN"

fun fadd :: "pyfloat \<Rightarrow> pyfloat \<Rightarrow> pyfloat" where
  "fadd NaN _ = NaN"
| "fadd _ NaN = NaN"
| "fadd (Finite a) (Finite b) = Finite (a + b)"
| "fadd PosInf NegInf = NaN"
| "fadd NegInf PosInf = NaN"
| "fadd PosInf _ = PosInf"
| "fadd _ PosInf = PosInf"
| "fadd NegInf _ = NegInf"
| "fadd _ NegInf = NegInf"

definition fsub :: "pyfloat \<Rightarrow> pyfloat \<Rightarrow> pyfloat" where
  "fsub a b = fadd a (fneg b)"

fun fmul :: "pyfloat \<Rightarrow> pyfloat \<Rightarrow> pyfloat" where
  "fmul NaN _ = NaN"
| "fmul _ NaN = NaN"
| "fmul (Finite a) (Finite b) = Finite (a * b)"
| "fmul (Finite a) i = (if a = 0 then NaN else if 0 < a then i else fneg i)"
| "fmul i (Finite b) = (if b = 0 then NaN else if 0 < b then i else fneg i)"
| "fmul PosInf i = i"
| "fmul NegInf i = fneg i"

fun fdiv :: "pyfloat \<Rightarrow> pyfloat \<Rightarrow> py_error + pyfloat" where
  "fdiv x (Finite b) =
     (if b = 0 then Inl ZeroDivisionError
      else Inr (case x of
                  Finite a \<Rightarrow> Finite (a / b)
                | NaN \<Rightarrow> NaN
                | i \<Rightarrow> (if 0 < b then i else fneg i)))"
| "fdiv NaN _ = Inr NaN"
| "fdiv _ NaN = Inr NaN"
| "fdiv (Finite a) _ = Inr (Finite 0)"
| "fdiv _ _ = Inr NaN"

fun fabs :: "pyfloat \<Rightarrow> pyfloat" where
  "fabs (Finite a) = Finite \<bar>a\<bar>"
| "fabs PosInf = PosInf"
| "fabs NegInf = PosInf"
| "fabs NaN = NaN"

fun fle :: "pyfloat \<Rightarrow> pyfloat \<Rightarrow> bool" where
  "fle NaN _ = False"
| "fle _ NaN = False"
| "fle (Finite a) (Finite b) = (a \<le> b)"
| "fle NegInf _ = True"
| "fle _ PosInf = True"
| "fle _ _ = False"

fun flt :: "pyfloat \<Rightarrow> pyfloat \<Rightarrow> bool" where
  "flt NaN _ = False"
| "flt _ NaN = False"
| "flt (Finite a) (Finite b) = (a < b)"
| "flt PosInf _ = False"
| "flt _ NegInf = False"
| "flt _ _ = True"

definition fge :: "pyfloat \<Rightarrow> pyfloat \<Rightarrow> bool" where
  "fge a b = fle b a"

definition fgt :: "pyfloat \<Rightarrow> pyfloat \<Rightarrow> bool" where
  "fgt a b = flt b a"

text \<open>\<open>sum(xs)\<close> starts from 0 and adds from the left.\<close>

definition psum :: "pyfloat list \<Rightarrow> pyfloat" where
  "psum xs = foldl fadd (Finite 0) xs"


section \<open>String builtins\<close>

text \<open>
  Strings are byte strings; the builtins are modelled on ASCII. \<open>str.strip()\<close> removes
  the characters for which \<open>str.isspace\<close> holds (codes 9 to 13 and 28 to 32),
  \<open>str.upper()\<close> maps \<open>a\<close> to \<open>z\<close>, and \<open>s.split(",")\<close> always returns at least one piece.
\<close>

definition is_space :: "char \<Rightarrow> bool" where
  "is_space c = (let n = (of_char c :: nat) in (9 \<le> n \<and> n \<le> 13) \<or> (28 \<le> n \<and> n \<le> 32))"

definition strip :: "string \<Rightarrow> string" where
  "strip s = rev (dropWhile is_space (rev (dropWhile is_space s)))"

definition upper_char :: "char \<Rightarrow> char" where
  "upper_char c =
     (let n = (of_char c :: nat) in if 97 \<le> n \<and> n \<le> 122 then char_of (n - 32) else c)"

definition lower_char :: "char \<Rightarrow> char" where
  "lower_char c =
     (let n = (of_char c :: nat) in if 65 \<le> n \<and> n \<le> 90 then char_of (n + 32) else c)"

definition upper :: "string \<Rightarrow> string" where
  "upper s = map upper_char s"

definition lower :: "string \<Rightarrow> string" where
  "lower s = map lower_char s"

fun split_on :: "char \<Rightarrow> string \<Rightarrow> string list" where
  "split_on sep [] = [[]]"
| "split_on sep (c # cs) =
     (if c = sep then [] # split_on sep cs
      else (case split_on sep cs of
              [] \<Rightarrow> [[c]]
            | p # ps \<Rightarrow> (c # p) # ps))"

subsection \<open>\<open>float(s)\<close> on a string\<close>

text \<open>
  The grammar of the language reference: after stripping, an optional sign, then
  \<open>inf\<close>, \<open>infinity\<close> or \<open>nan\<close> in any case, or a decimal number
  \<open>[digitpart] "." digitpart | digitpart ["."]\<close> with an optional exponent, where a
  digitpart is \<open>digit (["_"] digit)*\<close>. Anything else raises \<open>ValueError\<close>. The value of a
  decimal number is exact.
\<close>

definition is_digit :: "char \<Rightarrow> bool" where
  "is_digit c = (let n = (of_char c :: nat) in 48 \<le> n \<and> n \<le> 57)"

definition digit_val :: "char \<Rightarrow> nat" where
  "digit_val c = of_char c - 48"

definition nat_of_digits :: "string \<Rightarrow> nat" where
  "nat_of_digits ds = foldl (\<lambda>n c. 10 * n + digit_val c) 0 ds"

fun digitpart :: "string \<Rightarrow> string \<times> string" where
  "digitpart (c # u # d # cs) =
     (if is_digit c then
        (if u = CHR ''_'' \<and> is_digit d
         then (case digitpart (d # cs) of (ds, r) \<Rightarrow> (c # ds, r))
         else (case digitpart (u # d # cs) of (ds, r) \<Rightarrow> (c # ds, r)))
      else ([], c # u # d # cs))"
| "digitpart (c # cs) =
     (if is_digit c then (case digitpart cs of (ds, r) \<Rightarrow> (c # ds, r)) else ([], c # cs))"
| "digitpart [] = ([], [])"

definition number :: "string \<Rightarrow> ((string \<times> string) \<times> string) option" where
  "number s =
     (case digitpart s of (ip, r) \<Rightarrow>
        (case r of
           c # r' \<Rightarrow>
             if c = CHR ''.'' then
               (case digitpart r' of (fp, r'') \<Rightarrow>
                  if ip = [] \<and> fp = [] then None else Some ((ip, fp), r''))
             else if ip = [] then None else Some ((ip, []), r)
         | [] \<Rightarrow> if ip = [] then None else Some ((ip, []), r)))"

definition split_sign :: "string \<Rightarrow> bool \<times> string" where
  "split_sign s =
     (case s of
        c # r \<Rightarrow> if c = CHR ''-'' then (True, r) else if c = CHR ''+'' then (False, r) else (False, s)
      | [] \<Rightarrow> (False, s))"

definition exponent :: "string \<Rightarrow> int option" where
  "exponent s =
     (case s of
        [] \<Rightarrow> Some 0
      | c # r \<Rightarrow>
          if c = CHR ''e'' \<or> c = CHR ''E'' then
            (case split_sign r of (neg, r') \<Rightarrow>
               (case digitpart r' of (ds, rest) \<Rightarrow>
                  if ds = [] \<or> rest \<noteq> [] then None
                  else Some (if neg then - int (nat_of_digits ds) else int (nat_of_digits ds))))
          else None)"

definition decimal_value :: "string \<Rightarrow> string \<Rightarrow> int \<Rightarrow> real" where
  "decimal_value ip fp e =
     (let m = real (nat_of_digits (ip @ fp)); k = e - int (length fp)
      in if 0 \<le> k then m * 10 ^ nat k else m / 10 ^ nat (- k))"

definition py_float :: "string \<Rightarrow> py_error + pyfloat" where
  "py_float s =
     (case split_sign (strip s) of (neg, body) \<Rightarrow>
        if lower body = ''inf'' \<or> lower body = ''infinity''
          then Inr (if neg then NegInf else PosInf)
        else if lower body = ''nan'' then Inr NaN
        else (case number body of
                None \<Rightarrow> Inl ValueError
              | Some ((ip, fp), r) \<Rightarrow>
                  (case exponent r of
                     None \<Rightarrow> Inl ValueError
                   | Some e \<Rightarrow>
                       Inr (Finite (if neg then - decimal_value ip fp e
                                    else decimal_value ip fp e)))))"

subsection \<open>Sequences\<close>

text \<open>Indexing \<open>xs[i]\<close> and \<open>.iloc[i]\<close>: a negative index counts from the end.\<close>

definition index :: "'a list \<Rightarrow> int \<Rightarrow> py_error + 'a" where
  "index xs i =
     (if 0 \<le> i \<and> i < int (length xs) then Inr (xs ! nat i)
      else if i < 0 \<and> - i \<le> int (length xs) then Inr (xs ! nat (int (length xs) + i))
      else Inl IndexError)"

text \<open>A comprehension whose element expression may raise: the first exception wins.\<close>

fun comprehension :: "('a \<Rightarrow> py_error + 'b) \<Rightarrow> 'a list \<Rightarrow> py_error + 'b list" where
  "comprehension f [] = Inr []"
| "comprehension f (x # xs) =
     (case f x of
        Inl e \<Rightarrow> Inl e
      | Inr y \<Rightarrow> (case comprehension f xs of Inl e \<Rightarrow> Inl e | Inr ys \<Rightarrow> Inr (y # ys)))"

section \<open>Percent change\<close>

text \<open>
  \<open>pct_change(open_price, last_price)\<close>: \<open>None\<close> is Python's \<open>None\<close>; the comparison
  \<open>open_price == 0\<close> is true of the finite zero only.
\<close>

definition pct_change :: "pyfloat option \<Rightarrow> pyfloat option \<Rightarrow> py_error + pyfloat option" where
  "pct_change open_price last_price =
     (case (open_price, last_price) of
        (Some opn, Some lst) \<Rightarrow>
          if opn = Finite 0 then Inr None
          else (case fdiv (fsub lst opn) opn of
                  Inl e \<Rightarrow> Inl e
                | Inr q \<Rightarrow> Inr (Some (fmul q (Finite 100))))
      | _ \<Rightarrow> Inr None)"

section \<open>Data model\<close>

text \<open>
  The values stored in a snapshot dict, and the dict itself: a list of key and value in
  insertion order, as a Python dict keeps them. A news entry is a dict of strings.
\<close>

type_synonym news_entry = "(string \<times> string) list"

datatype pyval = PNone | PFloat pyfloat | PStr string | PNews "news_entry list"

type_synonym pydict = "(string \<times> pyval) list"

text \<open>\<open>d.get(k)\<close>: \<open>None\<close> when the key is absent.\<close>

definition dict_get :: "pydict \<Rightarrow> string \<Rightarrow> pyval" where
  "dict_get d k = (case map_of d k of None \<Rightarrow> PNone | Some v \<Rightarrow> v)"

text \<open>\<open>d[k]\<close>: \<open>KeyError\<close> when the key is absent.\<close>

definition dict_item :: "pydict \<Rightarrow> string \<Rightarrow> py_error + pyval" where
  "dict_item d k = (case map_of d k of None \<Rightarrow> Inl (KeyError k) | Some v \<Rightarrow> Inr v)"

text \<open>\<open>d[k] = v\<close>: an existing key keeps its place, a new one goes last.\<close>

definition dict_set :: "pydict \<Rightarrow> string \<Rightarrow> pyval \<Rightarrow> pydict" where
  "dict_set d k v = AList.update k v d"

text \<open>The document written to \<open>data/latest.json\<close>.\<close>

record run_report =
  generated_at_utc :: string
  tickers :: "string list"
  portfolio_pct :: "pyfloat option"
  threshold_pct :: pyfloat
  items :: "pydict list"

subsection \<open>The two providers\<close>

text \<open>
  One row of the frame \<open>yf.download\<close> returns: its index entry and its columns, of which
  the program reads \<open>Open\<close> and \<open>Close\<close>. A missing cell is \<open>NaN\<close>.
\<close>

record candle =
  stamp :: int
  col_Open :: pyfloat
  col_Close :: pyfloat
  other_cols :: "pyfloat list"

datatype download_result =
    DownloadRaises string
  | DownloadNone
  | DownloadFrame "candle list"

text \<open>
  The frame \<open>GdeltDoc.article_search\<close> returns: its column names and its rows; a row
  gives the cell under each column name, a string.
\<close>

record data_frame =
  columns :: "string list"
  rows :: "(string \<Rightarrow> string) list"

datatype search_result =
    SearchRaises string
  | SearchNone
  | SearchFrame data_frame

record filters =
  keyword :: string
  start_date :: string
  end_date :: string

text \<open>
  What the program reads from outside: the environment, the clock (its n-th reading, in
  microseconds), the answer to the n-th download and to the n-th search, and the two
  formatting functions of \<open>datetime\<close>. The last two fields are the interpreter's
  double arithmetic, in which the weights are parsed, summed and divided:
  \<open>binary64 r\<close> is the float an exact result \<open>r\<close> is rounded to (an infinity on overflow),
  and \<open>float_sum\<close> is the builtin \<open>sum\<close> on a list of floats.
\<close>

record services =
  environ :: "string \<rightharpoonup> string"
  utc_now :: "nat \<Rightarrow> int"
  yf_download :: "nat \<Rightarrow> string \<Rightarrow> download_result"
  article_search :: "nat \<Rightarrow> filters \<Rightarrow> search_result"
  isoformat :: "int \<Rightarrow> string"
  strftime_ymd :: "int \<Rightarrow> string"
  binary64 :: "real \<Rightarrow> pyfloat"
  float_sum :: "pyfloat list \<Rightarrow> pyfloat"

text \<open>
  What the program does to the outside: clock readings, downloads and searches issued so
  far (oldest first), and the content of \<open>data/latest.json\<close>.
\<close>

record world =
  clock_reads :: nat
  downloads :: "string list"
  searches :: "filters list"
  latest_json :: "run_report option"

section \<open>Fetching\<close>

definition DEFAULT_TICKERS :: "string list" where
  "DEFAULT_TICKERS = [''NTSK'', ''KLAR'', ''FIG'', ''NAVN'']"

definition datetime_now :: "services \<Rightarrow> world \<Rightarrow> int \<times> world" where
  "datetime_now sv w = (utc_now sv (clock_reads w), w\<lparr>clock_reads := Suc (clock_reads w)\<rparr>)"

definition now_utc_iso :: "services \<Rightarrow> world \<Rightarrow> string \<times> world" where
  "now_utc_iso sv w = (case datetime_now sv w of (t, w') \<Rightarrow> (isoformat sv t, w'))"

subsection \<open>\<open>fetch_intraday\<close>\<close>

definition msg_no_data :: string where
  "msg_no_data = ''Sem dados intraday (ticker pode n'' @ [CHR 0xC3, CHR 0xA3]
     @ ''o existir na fonte).''"

definition msg_no_candles :: string where
  "msg_no_candles = ''Sem candles v'' @ [CHR 0xC3, CHR 0xA1] @ ''lidos ap''
     @ [CHR 0xC3, CHR 0xB3] @ ''s limpeza.''"

definition dropna :: "candle list \<Rightarrow> candle list" where
  "dropna df =
     filter (\<lambda>r. col_Open r \<noteq> NaN \<and> col_Close r \<noteq> NaN \<and> NaN \<notin> set (other_cols r)) df"

definition error_snapshot :: "string \<Rightarrow> string \<Rightarrow> pydict" where
  "error_snapshot ticker msg = [(''ticker'', PStr ticker), (''error'', PStr msg)]"

definition fetch_intraday :: "services \<Rightarrow> string \<Rightarrow> world \<Rightarrow> (py_error + pydict) \<times> world" where
  "fetch_intraday sv ticker w =
     (let w' = w\<lparr>downloads := downloads w @ [ticker]\<rparr> in
      case yf_download sv (length (downloads w)) ticker of
        DownloadRaises e \<Rightarrow> (Inl (ProviderError e), w')
      | DownloadNone \<Rightarrow> (Inr (error_snapshot ticker msg_no_data), w')
      | DownloadFrame df0 \<Rightarrow>
          if df0 = [] then (Inr (error_snapshot ticker msg_no_data), w')
          else
            (let df = dropna df0 in
             if df = [] then (Inr (error_snapshot ticker msg_no_candles), w')
             else
               (case index df 0 of
                  Inl e \<Rightarrow> (Inl e, w')
                | Inr first_row \<Rightarrow>
                    (case index df (- 1) of
                       Inl e \<Rightarrow> (Inl e, w')
                     | Inr last_row \<Rightarrow>
                         (let open_day = col_Open first_row;
                              last = col_Close last_row;
                              ts_last = isoformat sv (stamp last_row)
                          in case pct_change (Some open_day) (Some last) of
                               Inl e \<Rightarrow> (Inl e, w')
                             | Inr p \<Rightarrow>
                                 (Inr [(''ticker'', PStr ticker),
                                       (''open'', PFloat open_day),
                                       (''last'', PFloat last),
                                       (''pct'', case p of None \<Rightarrow> PNone | Some v \<Rightarrow> PFloat v),
                                       (''last_timestamp_utc'', PStr ts_last)], w'))))))"

subsection \<open>\<open>fetch_news_gdelt\<close>\<close>

definition msg_news_failed :: string where
  "msg_news_failed = ''Falha ao buscar not'' @ [CHR 0xC3, CHR 0xAD] @ ''cias no GDELT: ''"

text \<open>\<open>str(e)\<close> of a caught exception.\<close>

fun exception_str :: "py_error \<Rightarrow> string" where
  "exception_str (ProviderError m) = m"
| "exception_str (KeyError k) = [CHR 0x27] @ k @ [CHR 0x27]"
| "exception_str ZeroDivisionError = ''float division by zero''"
| "exception_str IndexError = ''list index out of range''"
| "exception_str TypeError = ''unsupported operand type''"
| "exception_str ValueError = ''could not convert string to float''"

text \<open>\<open>r.get(c, "")\<close> on a row of a frame: the default when the frame has no such column.\<close>

definition row_get :: "data_frame \<Rightarrow> (string \<Rightarrow> string) \<Rightarrow> string \<Rightarrow> string \<Rightarrow> string" where
  "row_get a r c dflt = (if c \<in> set (columns a) then r c else dflt)"

text \<open>
  \<open>sort_values(c, ascending=False)\<close>: rows in descending order of the cell under \<open>c\<close>,
  strings compared as Python compares them; rows with equal cells keep their order.
\<close>

definition sort_values_desc :: "string \<Rightarrow> data_frame \<Rightarrow> data_frame" where
  "sort_values_desc c a = a\<lparr>rows := rev (sort_key (\<lambda>r. r c) (rev (rows a)))\<rparr>"

text \<open>\<open>head(n)\<close>: the first \<open>n\<close> rows; all but the last \<open>-n\<close> when \<open>n\<close> is negative.\<close>

definition head :: "int \<Rightarrow> 'a list \<Rightarrow> 'a list" where
  "head n xs = (if 0 \<le> n then take (nat n) xs else take (length xs - nat (- n)) xs)"

definition news_row :: "data_frame \<Rightarrow> (string \<Rightarrow> string) \<Rightarrow> news_entry" where
  "news_row a r =
     [(''title'', row_get a r ''title'' []),
      (''url'', row_get a r ''url'' []),
      (''seendate'', row_get a r ''seendate'' []),
      (''domain'', row_get a r ''domain'' [])]"

text \<open>The body of the \<open>try\<close> block, given what \<open>article_search\<close> did.\<close>

definition news_try :: "search_result \<Rightarrow> int \<Rightarrow> py_error + news_entry list" where
  "news_try res max_n =
     (case res of
        SearchRaises e \<Rightarrow> Inl (ProviderError e)
      | SearchNone \<Rightarrow> Inr []
      | SearchFrame articles \<Rightarrow>
          if length (rows articles) = 0 then Inr []
          else
            (let sorted_articles =
                   (if ''seendate'' \<in> set (columns articles)
                    then sort_values_desc ''seendate'' articles else articles)
             in Inr (map (news_row sorted_articles) (head max_n (rows sorted_articles)))))"

text \<open>The \<open>try\<close> block with its \<open>except Exception\<close> clause.\<close>

definition news_of :: "search_result \<Rightarrow> int \<Rightarrow> news_entry list" where
  "news_of res max_n =
     (case news_try res max_n of
        Inl e \<Rightarrow> [[(''error'', msg_news_failed @ exception_str e)]]
      | Inr found \<Rightarrow> found)"

definition gdelt_filters :: "services \<Rightarrow> string \<Rightarrow> int \<Rightarrow> world \<Rightarrow> filters \<times> world" where
  "gdelt_filters sv query hours_back w =
     (case datetime_now sv w of (t1, w1) \<Rightarrow>
        (case datetime_now sv w1 of (t2, w2) \<Rightarrow>
           (\<lparr>keyword = query,
             start_date = strftime_ymd sv (t1 - hours_back * 3600000000),
             end_date = strftime_ymd sv t2\<rparr>, w2)))"

definition fetch_news_gdelt ::
  "services \<Rightarrow> string \<Rightarrow> int \<Rightarrow> int \<Rightarrow> world \<Rightarrow> news_entry list \<times> world" where
  "fetch_news_gdelt sv query hours_back max_n w =
     (case gdelt_filters sv query hours_back w of (f, w2) \<Rightarrow>
        (news_of (article_search sv (length (searches w2)) f) max_n,
         w2\<lparr>searches := searches w2 @ [f]\<rparr>))"

section \<open>\<open>main\<close>\<close>

definition getenv :: "services \<Rightarrow> string \<Rightarrow> string \<Rightarrow> string" where
  "getenv sv name dflt = (case environ sv name of None \<Rightarrow> dflt | Some v \<Rightarrow> v)"

text \<open>The ticker list: pieces of \<open>TICKERS\<close> that are not blank, stripped and upper-cased.\<close>

definition main_tickers :: "services \<Rightarrow> string list" where
  "main_tickers sv =
     (let tickers_env = getenv sv ''TICKERS'' [];
          given = map (\<lambda>t. upper (strip t))
                    (filter (\<lambda>t. strip t \<noteq> []) (split_on CHR '','' tickers_env))
      in if given = [] then DEFAULT_TICKERS else given)"

text \<open>
  Double arithmetic in the weights block: \<open>float(s)\<close> is the parsed value rounded,
  \<open>x / y\<close> is the quotient rounded, and neither rounds an infinity or a NaN.
\<close>

definition to_binary64 :: "services \<Rightarrow> pyfloat \<Rightarrow> pyfloat" where
  "to_binary64 sv x = (case x of Finite r \<Rightarrow> binary64 sv r | _ \<Rightarrow> x)"

definition float_of_str :: "services \<Rightarrow> string \<Rightarrow> py_error + pyfloat" where
  "float_of_str sv s = (case py_float s of Inl e \<Rightarrow> Inl e | Inr x \<Rightarrow> Inr (to_binary64 sv x))"

definition float_div :: "services \<Rightarrow> pyfloat \<Rightarrow> pyfloat \<Rightarrow> py_error + pyfloat" where
  "float_div sv x y = (case fdiv x y of Inl e \<Rightarrow> Inl e | Inr q \<Rightarrow> Inr (to_binary64 sv q))"

text \<open>
  The weights: \<open>None\<close> unless \<open>WEIGHTS\<close> is set, every piece converts, the count matches and
  the sum is positive. The bare \<open>except\<close> turns every exception of the block into \<open>None\<close>.
\<close>

definition weights_try ::
  "services \<Rightarrow> string \<Rightarrow> string list \<Rightarrow> py_error + pyfloat list option" where
  "weights_try sv weights_env tks =
     (case comprehension (\<lambda>x. float_of_str sv (strip x)) (split_on CHR '','' weights_env) of
        Inl e \<Rightarrow> Inl e
      | Inr w \<Rightarrow>
          if length w = length tks \<and> fgt (float_sum sv w) (Finite 0) then
            (let s = float_sum sv w in
             case comprehension (\<lambda>x. float_div sv x s) w of
               Inl e \<Rightarrow> Inl e
             | Inr normalized \<Rightarrow> Inr (Some normalized))
          else Inr None)"

definition main_weights :: "services \<Rightarrow> string list \<Rightarrow> pyfloat list option" where
  "main_weights sv tks =
     (let weights_env = getenv sv ''WEIGHTS'' [] in
      if weights_env \<noteq> [] then
        (case weights_try sv weights_env tks of Inl e \<Rightarrow> None | Inr weights \<Rightarrow> weights)
      else None)"

text \<open>The loop \<open>for t in tickers: items.append(fetch_intraday(t))\<close>.\<close>

fun fetch_items ::
  "services \<Rightarrow> string list \<Rightarrow> pydict list \<Rightarrow> world \<Rightarrow> (py_error + pydict list) \<times> world" where
  "fetch_items sv [] acc w = (Inr acc, w)"
| "fetch_items sv (t # ts) acc w =
     (case fetch_intraday sv t w of
        (Inl e, w') \<Rightarrow> (Inl e, w')
      | (Inr it, w') \<Rightarrow> fetch_items sv ts (acc @ [it]) w')"

text \<open>The portfolio figure.\<close>

definition as_float :: "pyval \<Rightarrow> py_error + pyfloat" where
  "as_float v = (case v of PFloat x \<Rightarrow> Inr x | _ \<Rightarrow> Inl TypeError)"

definition valid_pcts :: "pydict list \<Rightarrow> pyval list" where
  "valid_pcts its = map (\<lambda>it. dict_get it ''pct'') (filter (\<lambda>it. dict_get it ''pct'' \<noteq> PNone) its)"

definition weighted_term :: "pyfloat list \<Rightarrow> pydict list \<Rightarrow> nat \<Rightarrow> py_error + pyfloat" where
  "weighted_term ws its i =
     (case index ws (int i) of
        Inl e \<Rightarrow> Inl e
      | Inr wi \<Rightarrow>
          (case index its (int i) of
             Inl e \<Rightarrow> Inl e
           | Inr it \<Rightarrow>
               (case dict_item it ''pct'' of
                  Inl e \<Rightarrow> Inl e
                | Inr v \<Rightarrow> (case as_float v of Inl e \<Rightarrow> Inl e | Inr p \<Rightarrow> Inr (fmul wi p)))))"

definition weighted_pct :: "pyfloat list \<Rightarrow> string list \<Rightarrow> pydict list \<Rightarrow> py_error + pyfloat option" where
  "weighted_pct ws tks its =
     (case comprehension (weighted_term ws its) [0..<length tks] of
        Inl e \<Rightarrow> Inl e
      | Inr terms \<Rightarrow> Inr (Some (psum terms)))"

definition mean_pct :: "pyval list \<Rightarrow> py_error + pyfloat option" where
  "mean_pct valid =
     (if valid \<noteq> [] then
        (case comprehension as_float valid of
           Inl e \<Rightarrow> Inl e
         | Inr ps \<Rightarrow>
             (case fdiv (psum ps) (Finite (real (length valid))) of
                Inl e \<Rightarrow> Inl e
              | Inr m \<Rightarrow> Inr (Some m)))
      else Inr None)"

text \<open>
  \<open>if weights and len(valid_pcts) == len(tickers)\<close>: a list is true when it is not empty.
\<close>

definition port_pct ::
  "pyfloat list option \<Rightarrow> string list \<Rightarrow> pydict list \<Rightarrow> py_error + pyfloat option" where
  "port_pct weights tks its =
     (let valid = valid_pcts its in
      case weights of
        None \<Rightarrow> mean_pct valid
      | Some ws \<Rightarrow>
          if ws \<noteq> [] \<and> length valid = length tks then weighted_pct ws tks its
          else mean_pct valid)"

text \<open>The news loop: the body for one item, then the loop over the items.\<close>

definition enrich_item :: "services \<Rightarrow> pydict \<Rightarrow> world \<Rightarrow> (py_error + pydict) \<times> world" where
  "enrich_item sv it w =
     (case dict_get it ''pct'' of
        PNone \<Rightarrow> (Inr (dict_set it ''news'' (PNews [])), w)
      | PFloat p \<Rightarrow>
          if fge (fabs p) (Finite 5) then
            (case dict_item it ''ticker'' of
               Inl e \<Rightarrow> (Inl e, w)
             | Inr (PStr query) \<Rightarrow>
                 (case fetch_news_gdelt sv query 72 5 w of
                    (found, w') \<Rightarrow> (Inr (dict_set it ''news'' (PNews found)), w'))
             | Inr _ \<Rightarrow> (Inl TypeError, w))
          else (Inr (dict_set it ''news'' (PNews [])), w)
      | _ \<Rightarrow> (Inl TypeError, w))"

fun enrich_items ::
  "services \<Rightarrow> pydict list \<Rightarrow> world \<Rightarrow> (py_error + pydict list) \<times> world" where
  "enrich_items sv [] w = (Inr [], w)"
| "enrich_items sv (it # its) w =
     (case enrich_item sv it w of
        (Inl e, w') \<Rightarrow> (Inl e, w')
      | (Inr it', w') \<Rightarrow>
          (case enrich_items sv its w' of
             (Inl e, w'') \<Rightarrow> (Inl e, w'')
           | (Inr its', w'') \<Rightarrow> (Inr (it' # its'), w'')))"

text \<open>
  The whole run. \<open>Inl\<close> is an exception that leaves \<open>main\<close>; on \<open>Inr\<close> the document has been
  written. Creating the directory and writing the file are taken to succeed.
\<close>

definition main :: "services \<Rightarrow> world \<Rightarrow> (py_error + unit) \<times> world" where
  "main sv w =
     (let tks = main_tickers sv;
          weights = main_weights sv tks
      in case fetch_items sv tks [] w of
           (Inl e, w1) \<Rightarrow> (Inl e, w1)
         | (Inr its, w1) \<Rightarrow>
             (case port_pct weights tks its of
                Inl e \<Rightarrow> (Inl e, w1)
              | Inr pp \<Rightarrow>
                  (case enrich_items sv its w1 of
                     (Inl e, w2) \<Rightarrow> (Inl e, w2)
                   | (Inr its', w2) \<Rightarrow>
                       (case now_utc_iso sv w2 of
                          (stamp_now, w3) \<Rightarrow>
                            (Inr (),
                             w3\<lparr>latest_json :=
                                  Some \<lparr>generated_at_utc = stamp_now,
                                        tickers = tks,
                                        portfolio_pct = pp,
                                        threshold_pct = Finite 5,
                                        items = its'\<rparr>\<rparr>)))))"

section \<open>Invariants used in the proofs\<close>

text \<open>The two shapes of dict that \<open>fetch_intraday\<close> returns for a ticker.\<close>

definition snapshot_for :: "string \<Rightarrow> pydict \<Rightarrow> bool" where
  "snapshot_for t it =
     ((\<exists>msg. it = error_snapshot t msg)
      \<or> (\<exists>opn lst p ts.
            it = [(''ticker'', PStr t), (''open'', PFloat opn), (''last'', PFloat lst),
                  (''pct'', p), (''last_timestamp_utc'', PStr ts)]
            \<and> (p = PNone \<or> (\<exists>x. p = PFloat x))))"

text \<open>
  The condition under which the specification asks for news: the item's \<open>pct\<close> is not
  null and its absolute value is at least 5.0.
\<close>

definition news_due :: "pydict \<Rightarrow> bool" where
  "news_due it = (case dict_get it ''pct'' of PFloat p \<Rightarrow> fge (fabs p) (Finite 5) | _ \<Rightarrow> False)"

text \<open>
  How the news loop leaves an item, between the worlds before and after the loop: the
  \<open>news\<close> key is added last; it holds what one search of the loop gave when news
  was due, and the empty list otherwise.
\<close>

definition enriched :: "services \<Rightarrow> world \<Rightarrow> world \<Rightarrow> pydict \<Rightarrow> pydict \<Rightarrow> bool" where
  "enriched sv w w' it it' =
     (\<exists>ns. it' = it @ [(''news'', PNews ns)]
        \<and> (if news_due it
            then (\<exists>n. length (searches w) \<le> n \<and> n < length (searches w')
                    \<and> ns = news_of (article_search sv n (searches w' ! n)) 5
                    \<and> dict_get it ''ticker'' = PStr (keyword (searches w' ! n)))
            else ns = []))"

section \<open>Example runs\<close>

text \<open>
  The end-to-end scenario of the specification: \<open>TICKERS="AAA,BBB"\<close>, no weights, AAA opens
  at 10 and last trades at 11, BBB has no data, and the news search finds two articles.
  The example runs compute without rounding.
\<close>

definition world0 :: world where
  "world0 = \<lparr>clock_reads = 0, downloads = [], searches = [], latest_json = None\<rparr>"

definition two_articles :: data_frame where
  "two_articles =
     \<lparr>columns = [''title'', ''seendate''],
      rows = [(\<lambda>c. if c = ''title'' then ''older'' else ''20240101T000000Z''),
              (\<lambda>c. if c = ''title'' then ''newer'' else ''20240102T000000Z'')]\<rparr>"

definition scenario :: services where
  "scenario =
     \<lparr>environ = [''TICKERS'' \<mapsto> ''AAA,BBB''],
      utc_now = (\<lambda>n. int n),
      yf_download = (\<lambda>n t.
        if t = ''AAA''
        then DownloadFrame [\<lparr>stamp = 0, col_Open = Finite 10, col_Close = Finite 11, other_cols = []\<rparr>]
        else DownloadNone),
      article_search = (\<lambda>n f. SearchFrame two_articles),
      isoformat = (\<lambda>t. if t < 1000 then ''early'' else ''late''),
      strftime_ymd = (\<lambda>t. if t < 1000 then ''2024-01-02'' else ''2024-01-03''),
      binary64 = Finite,
      float_sum = psum\<rparr>"

text \<open>The same scenario run at a later time.\<close>

definition scenario_later :: services where
  "scenario_later = scenario\<lparr>utc_now := (\<lambda>n. 1000 + int n)\<rparr>"

text \<open>The same scenario with a download that raises for BBB.\<close>

definition scenario_download_raises :: services where
  "scenario_download_raises =
     scenario\<lparr>yf_download := (\<lambda>n t.
        if t = ''BBB'' then DownloadRaises ''connection reset'' else yf_download scenario n t)\<rparr>"

text \<open>The same scenario with a news search that raises.\<close>

definition scenario_search_raises :: services where
  "scenario_search_raises = scenario\<lparr>article_search := (\<lambda>n f. SearchRaises ''timeout'')\<rparr>"

text \<open>The same scenario with weights \<open>inf,1\<close>.\<close>

definition scenario_inf_weights :: services where
  "scenario_inf_weights =
     scenario\<lparr>environ := [''TICKERS'' \<mapsto> ''AAA,BBB'', ''WEIGHTS'' \<mapsto> ''inf,1'']\<rparr>"

text \<open>
  Three tickers moving by 10, -10 and 20 percent with weights 0.5, 0.3 and 0.2, and a
  search that finds nothing.
\<close>

definition weighted_scenario :: services where
  "weighted_scenario =
     \<lparr>environ = [''TICKERS'' \<mapsto> ''a, b, c'', ''WEIGHTS'' \<mapsto> ''0.5,0.3,0.2''],
      utc_now = (\<lambda>n. int n),
      yf_download = (\<lambda>n t.
        DownloadFrame [\<lparr>stamp = 0, col_Open = Finite 10,
                        col_Close = (if t = ''A'' then Finite 11 else if t = ''B'' then Finite 9
                                     else Finite 12),
                        other_cols = []\<rparr>]),
      article_search = (\<lambda>n f. SearchNone),
      isoformat = (\<lambda>t. ''T''),
      strftime_ymd = (\<lambda>t. ''D''),
      binary64 = Finite,
      float_sum = psum\<rparr>"

section \<open>Properties\<close>

lemma fdiv_nonzero: "d \<noteq> Finite 0 \<Longrightarrow> \<exists>q. fdiv x d = Inr q"
  by (cases d; cases x) simp_all

lemma index_first: "xs \<noteq> [] \<Longrightarrow> index xs 0 = Inr (hd xs)"
  by (cases xs) (simp_all add: index_def)

lemma index_last: "xs \<noteq> [] \<Longrightarrow> index xs (- 1) = Inr (last xs)"
  by (cases xs rule: rev_cases) (simp_all add: index_def nth_append)

lemma pct_change_total: "\<exists>r. pct_change x y = Inr r"
  by (cases x; cases y; simp add: pct_change_def)
     (metis fdiv_nonzero old.sum.simps(6))

lemma fetch_intraday_world:
  "snd (fetch_intraday sv t w) = w\<lparr>downloads := downloads w @ [t]\<rparr>"
  by (simp add: fetch_intraday_def Let_def split: download_result.splits sum.splits)

lemma fetch_intraday_Inr:
  assumes "fetch_intraday sv t w = (Inr it, w')"
  shows "snapshot_for t it"
  using assms
  by (auto simp: fetch_intraday_def Let_def snapshot_for_def
           split: download_result.splits sum.splits if_splits option.splits)

lemma fetch_intraday_no_raise:
  assumes "\<forall>e. yf_download sv (length (downloads w)) t \<noteq> DownloadRaises e"
  shows "\<exists>it. fetch_intraday sv t w = (Inr it, w\<lparr>downloads := downloads w @ [t]\<rparr>)"
proof (cases "yf_download sv (length (downloads w)) t")
  case (DownloadRaises e)
  with assms show ?thesis by simp
next
  case DownloadNone
  then show ?thesis by (simp add: fetch_intraday_def)
next
  case (DownloadFrame df0)
  show ?thesis
  proof (cases "dropna df0 = []")
    case True
    with DownloadFrame show ?thesis by (simp add: fetch_intraday_def Let_def)
  next
    case False
    then have ne: "df0 \<noteq> []" by (auto simp: dropna_def)
    obtain p where p: "pct_change (Some (col_Open (hd (dropna df0))))
        (Some (col_Close (last (dropna df0)))) = Inr p"
      using pct_change_total by blast
    from DownloadFrame False ne p show ?thesis
      by (simp add: fetch_intraday_def Let_def index_first index_last)
  qed
qed


lemma comprehension_Inr_iff:
  "(comprehension f xs = Inr ys) = (map f xs = map Inr ys)"
proof (induction xs arbitrary: ys)
  case Nil
  show ?case by auto
next
  case (Cons x xs)
  show ?case
  proof (cases "f x")
    case (Inl e)
    then show ?thesis by (cases ys) auto
  next
    case (Inr y)
    show ?thesis
    proof (cases "comprehension f xs")
      case (Inl e)
      with Inr Cons.IH show ?thesis by (cases ys) auto
    next
      case r: (Inr zs)
      with Inr Cons.IH [of zs] Cons.IH show ?thesis by (cases ys) auto
    qed
  qed
qed

lemma comprehension_map:
  "(\<And>x. x \<in> set xs \<Longrightarrow> f x = Inr (g x)) \<Longrightarrow> comprehension f xs = Inr (map g xs)"
  by (simp add: comprehension_Inr_iff)

lemma fetch_items_Inr:
  "fetch_items sv ts acc w = (Inr its, w') \<Longrightarrow>
     (\<exists>new. its = acc @ new \<and> list_all2 snapshot_for ts new)
     \<and> w' = w\<lparr>downloads := downloads w @ ts\<rparr>"
proof (induction ts arbitrary: acc w)
  case Nil
  then show ?case by simp
next
  case (Cons t ts)
  obtain r w1 where f: "fetch_intraday sv t w = (r, w1)" by (cases "fetch_intraday sv t w")
  with Cons.prems obtain it where r: "r = Inr it" by (cases r) auto
  from f have w1: "w1 = w\<lparr>downloads := downloads w @ [t]\<rparr>"
    using fetch_intraday_world [of sv t w] by simp
  from f r have s: "snapshot_for t it" by (auto dest: fetch_intraday_Inr)
  from Cons.prems f r have "fetch_items sv ts (acc @ [it]) w1 = (Inr its, w')" by simp
  from Cons.IH [OF this] obtain new where
    "its = (acc @ [it]) @ new" "list_all2 snapshot_for ts new"
    "w' = w1\<lparr>downloads := downloads w1 @ ts\<rparr>" by blast
  with s w1 show ?case by auto
qed

lemma fetch_items_no_raise:
  assumes "\<forall>n t e. yf_download sv n t \<noteq> DownloadRaises e"
  shows "\<exists>its. fetch_items sv ts acc w = (Inr its, w\<lparr>downloads := downloads w @ ts\<rparr>)"
proof (induction ts arbitrary: acc w)
  case Nil
  show ?case by simp
next
  case (Cons t ts)
  from assms have "\<forall>e. yf_download sv (length (downloads w)) t \<noteq> DownloadRaises e" by blast
  from fetch_intraday_no_raise [OF this] obtain it where
    it: "fetch_intraday sv t w = (Inr it, w\<lparr>downloads := downloads w @ [t]\<rparr>)" by blast
  from Cons.IH [of "acc @ [it]" "w\<lparr>downloads := downloads w @ [t]\<rparr>"] it
  show ?case by simp
qed

lemma fetch_items_nth:
  "fetch_items sv ts acc w = (Inr its, w') \<Longrightarrow> i < length ts \<Longrightarrow>
     fst (fetch_intraday sv (ts ! i) (w\<lparr>downloads := downloads w @ take i ts\<rparr>))
       = Inr (its ! (length acc + i))"
proof (induction ts arbitrary: acc w i)
  case Nil
  then show ?case by simp
next
  case (Cons t ts)
  obtain r w1 where f: "fetch_intraday sv t w = (r, w1)" by (cases "fetch_intraday sv t w")
  with Cons.prems obtain it where r: "r = Inr it" by (cases r) auto
  from f have w1: "w1 = w\<lparr>downloads := downloads w @ [t]\<rparr>"
    using fetch_intraday_world [of sv t w] by simp
  from Cons.prems f r have rest: "fetch_items sv ts (acc @ [it]) w1 = (Inr its, w')" by simp
  from fetch_items_Inr [OF rest] obtain new where its: "its = (acc @ [it]) @ new" by blast
  show ?case
  proof (cases i)
    case 0
    with f r its show ?thesis by (simp add: nth_append)
  next
    case (Suc j)
    with Cons.prems have "j < length ts" by simp
    from Cons.IH [OF rest this] Suc w1 show ?thesis by simp
  qed
qed

lemma snapshot_pct:
  "snapshot_for t it \<Longrightarrow> dict_get it ''pct'' = PNone \<or> (\<exists>x. dict_get it ''pct'' = PFloat x)"
  by (auto simp: snapshot_for_def error_snapshot_def dict_get_def)

lemma snapshot_pct_item:
  "snapshot_for t it \<Longrightarrow> dict_get it ''pct'' \<noteq> PNone \<Longrightarrow>
     dict_item it ''pct'' = Inr (dict_get it ''pct'')"
  by (auto simp: snapshot_for_def error_snapshot_def dict_get_def dict_item_def)

lemma snapshot_ticker:
  "snapshot_for t it \<Longrightarrow> dict_get it ''ticker'' = PStr t \<and> dict_item it ''ticker'' = Inr (PStr t)"
  by (auto simp: snapshot_for_def error_snapshot_def dict_get_def dict_item_def)

lemma snapshot_set_news:
  "snapshot_for t it \<Longrightarrow> dict_set it ''news'' v = it @ [(''news'', v)]"
  by (auto simp: snapshot_for_def error_snapshot_def dict_set_def)

lemma valid_pcts_floats:
  "list_all2 snapshot_for ts its \<Longrightarrow> \<exists>ps. valid_pcts its = map PFloat ps"
proof (induction ts its rule: list_all2_induct)
  case Nil
  show ?case by (simp add: valid_pcts_def)
next
  case (Cons t ts it its)
  then obtain ps where ps: "valid_pcts its = map PFloat ps" by blast
  from snapshot_pct [OF Cons.hyps(1)] show ?case
  proof
    assume "dict_get it ''pct'' = PNone"
    with ps have "valid_pcts (it # its) = map PFloat ps" by (simp add: valid_pcts_def)
    then show ?thesis by blast
  next
    assume "\<exists>x. dict_get it ''pct'' = PFloat x"
    then obtain x where "dict_get it ''pct'' = PFloat x" by blast
    with ps have "valid_pcts (it # its) = map PFloat (x # ps)" by (simp add: valid_pcts_def)
    then show ?thesis by blast
  qed
qed

lemma comprehension_as_float: "comprehension as_float (map PFloat ps) = Inr ps"
  by (simp add: comprehension_Inr_iff as_float_def)

lemma mean_pct_floats:
  "mean_pct (map PFloat ps) =
     (if ps = [] then Inr None
      else Inr (Some (case fdiv (psum ps) (Finite (real (length ps))) of Inr m \<Rightarrow> m)))"
proof (cases "ps = []")
  case True
  then show ?thesis by (simp add: mean_pct_def)
next
  case False
  then have "Finite (real (length ps)) \<noteq> Finite 0" by simp
  from fdiv_nonzero [OF this] obtain m where "fdiv (psum ps) (Finite (real (length ps))) = Inr m"
    by blast
  with False show ?thesis by (simp add: mean_pct_def comprehension_as_float)
qed

lemma valid_pcts_all:
  "length (valid_pcts its) = length its \<Longrightarrow> valid_pcts its = map (\<lambda>it. dict_get it ''pct'') its
     \<and> (\<forall>it\<in>set its. dict_get it ''pct'' \<noteq> PNone)"
proof -
  assume a: "length (valid_pcts its) = length its"
  have "length (filter (\<lambda>it. dict_get it ''pct'' \<noteq> PNone) its) = length its"
    using a by (simp add: valid_pcts_def)
  then have all: "\<forall>it\<in>set its. dict_get it ''pct'' \<noteq> PNone"
    using length_filter_less [of _ its "\<lambda>it. dict_get it ''pct'' \<noteq> PNone"] by fastforce
  then have "filter (\<lambda>it. dict_get it ''pct'' \<noteq> PNone) its = its" by simp
  with all show ?thesis by (simp add: valid_pcts_def)
qed

lemma weighted_pct_floats:
  assumes snaps: "list_all2 snapshot_for ts its"
    and full: "valid_pcts its = map PFloat ps"
    and len: "length (valid_pcts its) = length ts"
    and ws: "length ws = length ts"
  shows "weighted_pct ws ts its = Inr (Some (psum (map (\<lambda>(a, b). fmul a b) (zip ws ps))))"
proof -
  from snaps have lts: "length ts = length its" by (rule list_all2_lengthD)
  with len have all: "valid_pcts its = map (\<lambda>it. dict_get it ''pct'') its"
    "\<forall>it\<in>set its. dict_get it ''pct'' \<noteq> PNone"
    using valid_pcts_all [of its] by simp_all
  from full all have pcts: "map (\<lambda>it. dict_get it ''pct'') its = map PFloat ps" by simp
  then have lps: "length ps = length its" by (metis length_map)
  have wterm: "weighted_term ws its i = Inr (fmul (ws ! i) (ps ! i))" if i: "i < length ts" for i
  proof -
    from i lts have ii: "i < length its" by simp
    then have mem: "its ! i \<in> set its" by simp
    from snaps i lts have sn: "snapshot_for (ts ! i) (its ! i)" by (simp add: list_all2_nthD)
    from all(2) mem have nn: "dict_get (its ! i) ''pct'' \<noteq> PNone" by blast
    from pcts ii lps have "dict_get (its ! i) ''pct'' = PFloat (ps ! i)"
      by (metis nth_map)
    with snapshot_pct_item [OF sn nn] i ii ws show ?thesis
      by (simp add: weighted_term_def index_def as_float_def)
  qed
  have "comprehension (weighted_term ws its) [0..<length ts]
          = Inr (map (\<lambda>i. fmul (ws ! i) (ps ! i)) [0..<length ts])"
    by (rule comprehension_map) (simp add: wterm)
  moreover have "map (\<lambda>i. fmul (ws ! i) (ps ! i)) [0..<length ts]
          = map (\<lambda>(a, b). fmul a b) (zip ws ps)"
    using ws lps lts by (auto intro!: nth_equalityI)
  ultimately show ?thesis by (simp add: weighted_pct_def)
qed

lemma fadd_Finite_iff:
  "(fadd x y = Finite r) = (\<exists>a b. x = Finite a \<and> y = Finite b \<and> r = a + b)"
  by (cases x; cases y) auto

lemma foldl_fadd_Finite:
  "foldl fadd x vs = Finite r \<Longrightarrow> \<exists>a rs. x = Finite a \<and> vs = map Finite rs \<and> r = a + sum_list rs"
proof (induction vs arbitrary: x)
  case Nil
  then show ?case by simp
next
  case (Cons v vs)
  then have "foldl fadd (fadd x v) vs = Finite r" by simp
  from Cons.IH [OF this] obtain a' rs where
    a': "fadd x v = Finite a'" and rs: "vs = map Finite rs" and r: "r = a' + sum_list rs"
    by blast
  from a' obtain a b where "x = Finite a" "v = Finite b" "a' = a + b"
    by (auto simp: fadd_Finite_iff)
  with rs r have "x = Finite a \<and> v # vs = map Finite (b # rs) \<and> r = a + sum_list (b # rs)"
    by simp
  then show ?case by (intro exI [where x = a] exI [where x = "b # rs"])
qed

lemma foldl_fadd_map_Finite:
  "foldl fadd (Finite a) (map Finite rs) = Finite (a + sum_list rs)"
  by (induction rs arbitrary: a) (simp_all add: add.assoc)

lemma psum_Finite:
  "psum vs = Finite r \<Longrightarrow> \<exists>rs. vs = map Finite rs \<and> r = sum_list rs"
  using foldl_fadd_Finite [of "Finite 0" vs r] by (auto simp: psum_def)

lemma psum_map_Finite: "psum (map Finite rs) = Finite (sum_list rs)"
  by (simp add: psum_def foldl_fadd_map_Finite)

lemma fgt_zero_nonzero: "fgt s (Finite 0) \<Longrightarrow> s \<noteq> Finite 0"
  by (auto simp: fgt_def)

lemma normalized_exists:
  assumes "s \<noteq> Finite 0"
  shows "\<exists>ws. map (\<lambda>x. float_div sv x s) vs = map Inr ws"
proof (induction vs)
  case Nil
  show ?case by simp
next
  case (Cons v vs)
  then obtain ws where ws: "map (\<lambda>x. float_div sv x s) vs = map Inr ws" by blast
  from fdiv_nonzero [OF assms] obtain q where "fdiv v s = Inr q" by blast
  with ws have "map (\<lambda>x. float_div sv x s) (v # vs) = map Inr (to_binary64 sv q # ws)"
    by (simp add: float_div_def)
  then show ?case by blast
qed

lemma map_Inr_inject: "map Inr xs = map Inr ys \<Longrightarrow> xs = ys"
  by (simp add: inj_map_eq_map)

lemma weights_try_Some_iff:
  "(weights_try sv env tks = Inr (Some ws)) =
     (\<exists>vs. map (\<lambda>x. float_of_str sv (strip x)) (split_on CHR '','' env) = map Inr vs
          \<and> length vs = length tks \<and> fgt (float_sum sv vs) (Finite 0)
          \<and> map (\<lambda>x. float_div sv x (float_sum sv vs)) vs = map Inr ws)"
proof (cases "comprehension (\<lambda>x. float_of_str sv (strip x)) (split_on CHR '','' env)")
  case (Inl e)
  then have "\<not> (\<exists>vs. map (\<lambda>x. float_of_str sv (strip x)) (split_on CHR '','' env) = map Inr vs)"
    by (metis comprehension_Inr_iff sum.distinct(1))
  with Inl show ?thesis by (auto simp: weights_try_def)
next
  case (Inr w)
  then have w: "map (\<lambda>x. float_of_str sv (strip x)) (split_on CHR '','' env) = map Inr w"
    by (simp add: comprehension_Inr_iff)
  have uniq: "vs = w" if "map (\<lambda>x. float_of_str sv (strip x)) (split_on CHR '','' env) = map Inr vs" for vs
    using that w by (simp add: inj_map_eq_map)
  show ?thesis
  proof (cases "length w = length tks \<and> fgt (float_sum sv w) (Finite 0)")
    case False
    with Inr uniq show ?thesis by (auto simp: weights_try_def)
  next
    case True
    show ?thesis
    proof (cases "comprehension (\<lambda>x. float_div sv x (float_sum sv w)) w")
      case (Inl e)
      from True have "float_sum sv w \<noteq> Finite 0" by (simp add: fgt_zero_nonzero)
      from normalized_exists [OF this, where vs = w and sv = sv] Inl show ?thesis
        by (metis comprehension_Inr_iff sum.distinct(1))
    next
      case n: (Inr nz)
      then have nz: "map (\<lambda>x. float_div sv x (float_sum sv w)) w = map Inr nz"
        by (simp add: comprehension_Inr_iff)
      show ?thesis
      proof
        assume "weights_try sv env tks = Inr (Some ws)"
        with Inr True n have "ws = nz" by (simp add: weights_try_def Let_def)
        with w True nz show "\<exists>vs. map (\<lambda>x. float_of_str sv (strip x)) (split_on CHR '','' env) = map Inr vs
          \<and> length vs = length tks \<and> fgt (float_sum sv vs) (Finite 0)
          \<and> map (\<lambda>x. float_div sv x (float_sum sv vs)) vs = map Inr ws" by blast
      next
        assume "\<exists>vs. map (\<lambda>x. float_of_str sv (strip x)) (split_on CHR '','' env) = map Inr vs
          \<and> length vs = length tks \<and> fgt (float_sum sv vs) (Finite 0)
          \<and> map (\<lambda>x. float_div sv x (float_sum sv vs)) vs = map Inr ws"
        then obtain vs where vs: "map (\<lambda>x. float_of_str sv (strip x)) (split_on CHR '','' env) = map Inr vs"
          and d: "map (\<lambda>x. float_div sv x (float_sum sv vs)) vs = map Inr ws" by blast
        from uniq [OF vs] d nz have "ws = nz" by (simp add: inj_map_eq_map)
        with Inr True n show "weights_try sv env tks = Inr (Some ws)"
          by (simp add: weights_try_def Let_def)
      qed
    qed
  qed
qed

lemma weights_try_never_raises_after_parse:
  "map (\<lambda>x. float_of_str sv (strip x)) (split_on CHR '','' env) = map Inr vs \<Longrightarrow>
     \<exists>r. weights_try sv env tks = Inr r"
proof -
  assume p: "map (\<lambda>x. float_of_str sv (strip x)) (split_on CHR '','' env) = map Inr vs"
  then have c: "comprehension (\<lambda>x. float_of_str sv (strip x)) (split_on CHR '','' env) = Inr vs"
    by (simp add: comprehension_Inr_iff)
  show ?thesis
  proof (cases "length vs = length tks \<and> fgt (float_sum sv vs) (Finite 0)")
    case False
    with c show ?thesis by (auto simp: weights_try_def)
  next
    case True
    then have "float_sum sv vs \<noteq> Finite 0" by (simp add: fgt_zero_nonzero)
    from normalized_exists [OF this, where vs = vs and sv = sv] obtain ws where
      "comprehension (\<lambda>x. float_div sv x (float_sum sv vs)) vs = Inr ws" by (auto simp: comprehension_Inr_iff)
    with c True show ?thesis by (simp add: weights_try_def Let_def)
  qed
qed

lemma py_float_empty: "py_float (strip []) = Inl ValueError"
  by (simp add: py_float_def strip_def split_sign_def lower_def number_def)

lemma float_of_str_empty: "float_of_str sv (strip []) = Inl ValueError"
  by (simp add: float_of_str_def py_float_empty)

lemma split_on_nonempty: "split_on sep s \<noteq> []"
  by (induction s) (auto split: list.splits)

lemma gdelt_filters_eq:
  "gdelt_filters sv q h w =
     (\<lparr>keyword = q,
       start_date = strftime_ymd sv (utc_now sv (clock_reads w) - h * 3600000000),
       end_date = strftime_ymd sv (utc_now sv (Suc (clock_reads w)))\<rparr>,
      w\<lparr>clock_reads := Suc (Suc (clock_reads w))\<rparr>)"
  by (simp add: gdelt_filters_def datetime_now_def)

lemma fetch_news_gdelt_eq:
  "fetch_news_gdelt sv q h n w =
     (news_of (article_search sv (length (searches w)) (fst (gdelt_filters sv q h w))) n,
      w\<lparr>clock_reads := Suc (Suc (clock_reads w)),
        searches := searches w @ [fst (gdelt_filters sv q h w)]\<rparr>)"
  by (simp add: fetch_news_gdelt_def gdelt_filters_eq)

lemma keyword_gdelt_filters: "keyword (fst (gdelt_filters sv q h w)) = q"
  by (simp add: gdelt_filters_eq)

lemma enrich_item_snapshot:
  assumes "snapshot_for t it"
  shows "enrich_item sv it w =
     (if news_due it
      then (Inr (it @ [(''news'', PNews (fst (fetch_news_gdelt sv t 72 5 w)))]),
            snd (fetch_news_gdelt sv t 72 5 w))
      else (Inr (it @ [(''news'', PNews [])]), w))"
proof -
  note sn = snapshot_set_news [OF assms] snapshot_ticker [OF assms]
  from snapshot_pct [OF assms] show ?thesis
  proof
    assume "dict_get it ''pct'' = PNone"
    then show ?thesis by (simp add: enrich_item_def news_due_def sn)
  next
    assume "\<exists>x. dict_get it ''pct'' = PFloat x"
    then obtain x where "dict_get it ''pct'' = PFloat x" by blast
    then show ?thesis
      by (simp add: enrich_item_def news_due_def sn split: prod.splits)
  qed
qed

lemma enrich_items_snapshots:
  "list_all2 snapshot_for ts its \<Longrightarrow>
     \<exists>its' w' qs. enrich_items sv its w = (Inr its', w')
        \<and> searches w' = searches w @ qs
        \<and> map keyword qs = map fst (filter (\<lambda>(t, it). news_due it) (zip ts its))
        \<and> list_all2 (enriched sv w w') its its'"
proof (induction ts its arbitrary: w rule: list_all2_induct)
  case Nil
  show ?case by simp
next
  case (Cons t ts it its)
  show ?case
  proof (cases "news_due it")
    case False
    with enrich_item_snapshot [OF Cons.hyps(1)]
    have step: "enrich_item sv it w = (Inr (it @ [(''news'', PNews [])]), w)" by simp
    from Cons.IH [of w] obtain its' w' qs where
      rest: "enrich_items sv its w = (Inr its', w')" and
      log: "searches w' = searches w @ qs" and
      kw: "map keyword qs = map fst (filter (\<lambda>(t, it). news_due it) (zip ts its))" and
      rel: "list_all2 (enriched sv w w') its its'" by blast
    from False have "enriched sv w w' it (it @ [(''news'', PNews [])])"
      by (simp add: enriched_def)
    with step rest log kw rel False show ?thesis by simp
  next
    case True
    define f where "f = fst (gdelt_filters sv t 72 w)"
    define w1 where
      "w1 = w\<lparr>clock_reads := Suc (Suc (clock_reads w)), searches := searches w @ [f]\<rparr>"
    define ns where "ns = news_of (article_search sv (length (searches w)) f) 5"
    from True enrich_item_snapshot [OF Cons.hyps(1), of sv w]
    have step: "enrich_item sv it w = (Inr (it @ [(''news'', PNews ns)]), w1)"
      by (simp add: fetch_news_gdelt_eq f_def w1_def ns_def)
    from Cons.IH [of w1] obtain its' w' qs where
      rest: "enrich_items sv its w1 = (Inr its', w')" and
      log: "searches w' = searches w1 @ qs" and
      kw: "map keyword qs = map fst (filter (\<lambda>(t, it). news_due it) (zip ts its))" and
      rel: "list_all2 (enriched sv w1 w') its its'" by blast
    from log have log': "searches w' = searches w @ (f # qs)" by (simp add: w1_def)
    have mono: "enriched sv w w' a b" if e: "enriched sv w1 w' a b" for a b
    proof -
      from e obtain ms where b: "b = a @ [(''news'', PNews ms)]" and
        c: "if news_due a
            then (\<exists>n. length (searches w1) \<le> n \<and> n < length (searches w')
                    \<and> ms = news_of (article_search sv n (searches w' ! n)) 5
                    \<and> dict_get a ''ticker'' = PStr (keyword (searches w' ! n)))
            else ms = []"
        unfolding enriched_def by blast
      have "if news_due a
            then (\<exists>n. length (searches w) \<le> n \<and> n < length (searches w')
                    \<and> ms = news_of (article_search sv n (searches w' ! n)) 5
                    \<and> dict_get a ''ticker'' = PStr (keyword (searches w' ! n)))
            else ms = []"
      proof (cases "news_due a")
        case False
        with c show ?thesis by simp
      next
        case True
        with c obtain n where "length (searches w1) \<le> n" "n < length (searches w')"
          "ms = news_of (article_search sv n (searches w' ! n)) 5"
          "dict_get a ''ticker'' = PStr (keyword (searches w' ! n))" by auto
        moreover have "length (searches w) \<le> length (searches w1)" by (simp add: w1_def)
        ultimately show ?thesis using True by (auto intro!: exI [where x = n])
      qed
      with b show ?thesis unfolding enriched_def by blast
    qed
    from rel have rel': "list_all2 (enriched sv w w') its its'"
      by (rule list_all2_mono) (rule mono)
    have kf: "keyword f = t" by (simp add: f_def keyword_gdelt_filters)
    have nth: "searches w' ! length (searches w) = f" by (simp add: log')
    have "length (searches w) < length (searches w')" by (simp add: log')
    with True nth kf snapshot_ticker [OF Cons.hyps(1)]
    have first: "enriched sv w w' it (it @ [(''news'', PNews ns)])"
      unfolding enriched_def ns_def by (intro exI [where x = ns]) (auto simp: ns_def)
    from step rest have "enrich_items sv (it # its) w = (Inr ((it @ [(''news'', PNews ns)]) # its'), w')"
      by simp
    moreover from kw kf True
    have "map keyword (f # qs) = map fst (filter (\<lambda>(t, it). news_due it) (zip (t # ts) (it # its)))"
      by simp
    ultimately show ?thesis using log' first rel' by blast
  qed
qed

lemma main_tickers_nonempty: "main_tickers sv \<noteq> []"
  by (simp add: main_tickers_def Let_def DEFAULT_TICKERS_def)

lemma main_weights_Some_iff:
  "(main_weights sv tks = Some ws) =
     (getenv sv ''WEIGHTS'' [] \<noteq> [] \<and> weights_try sv (getenv sv ''WEIGHTS'' []) tks = Inr (Some ws))"
  by (auto simp: main_weights_def Let_def split: sum.splits)

lemma main_weights_length:
  assumes "main_weights sv tks = Some ws"
  shows "length ws = length tks"
proof -
  from assms have "weights_try sv (getenv sv ''WEIGHTS'' []) tks = Inr (Some ws)"
    by (simp add: main_weights_Some_iff)
  then obtain vs where "length vs = length tks"
    "map (\<lambda>x. float_div sv x (float_sum sv vs)) vs = map Inr ws"
    unfolding weights_try_Some_iff by blast
  then show ?thesis by (metis length_map)
qed

lemma port_pct_snapshots:
  assumes snaps: "list_all2 snapshot_for ts its"
    and wl: "\<And>ws. weights = Some ws \<Longrightarrow> length ws = length ts"
    and ne: "ts \<noteq> []"
  shows "\<exists>ps. valid_pcts its = map PFloat ps
           \<and> port_pct weights ts its =
               (if weights \<noteq> None \<and> length ps = length ts
                then Inr (Some (psum (map (\<lambda>(a, b). fmul a b) (zip (the weights) ps))))
                else if ps \<noteq> [] then
                  Inr (Some (case fdiv (psum ps) (Finite (real (length ps))) of Inr m \<Rightarrow> m))
                else Inr None)"
proof -
  from valid_pcts_floats [OF snaps] obtain ps where ps: "valid_pcts its = map PFloat ps" by blast
  have "port_pct weights ts its =
               (if weights \<noteq> None \<and> length ps = length ts
                then Inr (Some (psum (map (\<lambda>(a, b). fmul a b) (zip (the weights) ps))))
                else if ps \<noteq> [] then
                  Inr (Some (case fdiv (psum ps) (Finite (real (length ps))) of Inr m \<Rightarrow> m))
                else Inr None)"
  proof (cases weights)
    case None
    with ps show ?thesis by (simp add: port_pct_def mean_pct_floats)
  next
    case (Some ws)
    from wl [OF Some] have lw: "length ws = length ts" .
    with ne have wne: "ws \<noteq> []" by auto
    show ?thesis
    proof (cases "length ps = length ts")
      case True
      then have "length (valid_pcts its) = length ts" by (simp add: ps)
      from weighted_pct_floats [OF snaps ps this lw] Some True wne ps show ?thesis
        by (simp add: port_pct_def)
    next
      case False
      with Some ps show ?thesis by (simp add: port_pct_def mean_pct_floats)
    qed
  qed
  with ps show ?thesis by blast
qed

lemma port_pct_main:
  assumes "list_all2 snapshot_for (main_tickers sv) its"
  shows "\<exists>ps. valid_pcts its = map PFloat ps
           \<and> port_pct (main_weights sv (main_tickers sv)) (main_tickers sv) its =
               (if main_weights sv (main_tickers sv) \<noteq> None \<and> length ps = length (main_tickers sv)
                then Inr (Some (psum (map (\<lambda>(a, b). fmul a b)
                                      (zip (the (main_weights sv (main_tickers sv))) ps))))
                else if ps \<noteq> [] then
                  Inr (Some (case fdiv (psum ps) (Finite (real (length ps))) of Inr m \<Rightarrow> m))
                else Inr None)"
  by (rule port_pct_snapshots [OF assms _ main_tickers_nonempty]) (rule main_weights_length)

lemma port_pct_main_total:
  assumes "list_all2 snapshot_for (main_tickers sv) its"
  shows "\<exists>pp. port_pct (main_weights sv (main_tickers sv)) (main_tickers sv) its = Inr pp"
proof -
  from port_pct_main [OF assms] obtain ps where
    e: "port_pct (main_weights sv (main_tickers sv)) (main_tickers sv) its =
               (if main_weights sv (main_tickers sv) \<noteq> None \<and> length ps = length (main_tickers sv)
                then Inr (Some (psum (map (\<lambda>(a, b). fmul a b)
                                      (zip (the (main_weights sv (main_tickers sv))) ps))))
                else if ps \<noteq> [] then
                  Inr (Some (case fdiv (psum ps) (Finite (real (length ps))) of Inr m \<Rightarrow> m))
                else Inr None)" by blast
  show ?thesis unfolding e by simp
qed

lemma main_Inr:
  assumes "main sv w = (Inr (), w')"
  shows "\<exists>its its' pp w1 w2.
           fetch_items sv (main_tickers sv) [] w = (Inr its, w1)
         \<and> port_pct (main_weights sv (main_tickers sv)) (main_tickers sv) its = Inr pp
         \<and> enrich_items sv its w1 = (Inr its', w2)
         \<and> w' = (snd (now_utc_iso sv w2))\<lparr>latest_json :=
                  Some \<lparr>generated_at_utc = fst (now_utc_iso sv w2),
                        tickers = main_tickers sv,
                        portfolio_pct = pp,
                        threshold_pct = Finite 5,
                        items = its'\<rparr>\<rparr>"
  using assms
  by (auto simp: main_def Let_def split: prod.splits sum.splits)

lemma main_from_parts:
  assumes "fetch_items sv (main_tickers sv) [] w = (Inr its, w1)"
    and "port_pct (main_weights sv (main_tickers sv)) (main_tickers sv) its = Inr pp"
    and "enrich_items sv its w1 = (Inr its', w2)"
  shows "main sv w = (Inr (), (snd (now_utc_iso sv w2))\<lparr>latest_json :=
                  Some \<lparr>generated_at_utc = fst (now_utc_iso sv w2),
                        tickers = main_tickers sv,
                        portfolio_pct = pp,
                        threshold_pct = Finite 5,
                        items = its'\<rparr>\<rparr>)"
  using assms
  by (simp add: main_def Let_def split: prod.splits)

lemma main_no_raise:
  assumes "\<forall>n t e. yf_download sv n t \<noteq> DownloadRaises e"
  shows "\<exists>w'. main sv w = (Inr (), w')"
proof -
  from fetch_items_no_raise [OF assms] obtain its w1 where
    f: "fetch_items sv (main_tickers sv) [] w = (Inr its, w1)" by blast
  from fetch_items_Inr [OF f] have snaps: "list_all2 snapshot_for (main_tickers sv) its" by simp
  from port_pct_main_total [OF snaps]
  obtain pp where p: "port_pct (main_weights sv (main_tickers sv)) (main_tickers sv) its = Inr pp"
    by blast
  from enrich_items_snapshots [OF snaps] obtain its' w2 where
    e: "enrich_items sv its w1 = (Inr its', w2)" by blast
  from main_from_parts [OF f p e] show ?thesis by blast
qed

lemma now_utc_iso_world: "snd (now_utc_iso sv w) = w\<lparr>clock_reads := Suc (clock_reads w)\<rparr>"
  by (simp add: now_utc_iso_def datetime_now_def)

lemma enriched_snapshot:
  assumes s: "snapshot_for t it" and e: "enriched sv w w' it it'"
  shows "news_due it' = news_due it"
    and "dict_get it' ''ticker'' = PStr t"
    and "dict_get it' ''pct'' = dict_get it ''pct''"
    and "\<not> news_due it \<Longrightarrow> dict_get it' ''news'' = PNews []"
    and "news_due it \<Longrightarrow> \<exists>n. length (searches w) \<le> n \<and> n < length (searches w')
            \<and> keyword (searches w' ! n) = t
            \<and> dict_get it' ''news'' = PNews (news_of (article_search sv n (searches w' ! n)) 5)"
proof -
  from e obtain ns where it': "it' = it @ [(''news'', PNews ns)]" and
    c: "if news_due it
        then (\<exists>n. length (searches w) \<le> n \<and> n < length (searches w')
                \<and> ns = news_of (article_search sv n (searches w' ! n)) 5
                \<and> dict_get it ''ticker'' = PStr (keyword (searches w' ! n)))
        else ns = []"
    unfolding enriched_def by blast
  from s have nonews: "map_of it ''news'' = None"
    by (auto simp: snapshot_for_def error_snapshot_def)
  show pct: "dict_get it' ''pct'' = dict_get it ''pct''"
    by (simp add: it' dict_get_def map_add_def split: option.splits)
  then show "news_due it' = news_due it" by (simp add: news_due_def)
  from snapshot_ticker [OF s] have tk: "dict_get it ''ticker'' = PStr t" by simp
  then show "dict_get it' ''ticker'' = PStr t"
    using s by (auto simp: it' dict_get_def snapshot_for_def error_snapshot_def)
  have news: "dict_get it' ''news'' = PNews ns"
    using nonews by (simp add: it' dict_get_def map_add_def)
  show "dict_get it' ''news'' = PNews []" if "\<not> news_due it"
    using that c news by simp
  show "\<exists>n. length (searches w) \<le> n \<and> n < length (searches w')
            \<and> keyword (searches w' ! n) = t
            \<and> dict_get it' ''news'' = PNews (news_of (article_search sv n (searches w' ! n)) 5)"
    if "news_due it"
  proof -
    from that c obtain n where "length (searches w) \<le> n" "n < length (searches w')"
      "ns = news_of (article_search sv n (searches w' ! n)) 5"
      "dict_get it ''ticker'' = PStr (keyword (searches w' ! n))" by auto
    with tk news show ?thesis by (intro exI [where x = n]) simp
  qed
qed

lemma enriched_queries:
  assumes "list_all2 snapshot_for ts its" and "list_all2 (enriched sv w w') its its'"
  shows "map PStr (map fst (filter (\<lambda>(t, it). news_due it) (zip ts its)))
           = map (\<lambda>it. dict_get it ''ticker'') (filter news_due its')"
  using assms
proof (induction ts its arbitrary: its' rule: list_all2_induct)
  case Nil
  then show ?case by simp
next
  case (Cons t ts it its)
  from Cons.prems obtain it1 its1 where its': "its' = it1 # its1"
    and e: "enriched sv w w' it it1" and r: "list_all2 (enriched sv w w') its its1"
    by (auto simp: list_all2_Cons1)
  from enriched_snapshot(1,2) [OF Cons.hyps(1) e] Cons.IH [OF r] its'
  show ?case by simp
qed

lemma main_report:
  assumes "main sv w = (Inr (), w')"
  shows "\<exists>its its' w2 pp qs.
           list_all2 snapshot_for (main_tickers sv) its
         \<and> fetch_items sv (main_tickers sv) [] w = (Inr its, w\<lparr>downloads := downloads w @ main_tickers sv\<rparr>)
         \<and> port_pct (main_weights sv (main_tickers sv)) (main_tickers sv) its = Inr pp
         \<and> list_all2 (enriched sv w w') its its'
         \<and> searches w' = searches w @ qs
         \<and> map keyword qs = map fst (filter (\<lambda>(t, it). news_due it) (zip (main_tickers sv) its))
         \<and> latest_json w' =
             Some \<lparr>generated_at_utc = fst (now_utc_iso sv w2),
                   tickers = main_tickers sv,
                   portfolio_pct = pp,
                   threshold_pct = Finite 5,
                   items = its'\<rparr>"
proof -
  from main_Inr [OF assms] obtain its its' pp w1 w2 where
    f: "fetch_items sv (main_tickers sv) [] w = (Inr its, w1)" and
    p: "port_pct (main_weights sv (main_tickers sv)) (main_tickers sv) its = Inr pp" and
    e: "enrich_items sv its w1 = (Inr its', w2)" and
    w': "w' = (snd (now_utc_iso sv w2))\<lparr>latest_json :=
                  Some \<lparr>generated_at_utc = fst (now_utc_iso sv w2),
                        tickers = main_tickers sv,
                        portfolio_pct = pp,
                        threshold_pct = Finite 5,
                        items = its'\<rparr>\<rparr>" by blast
  from fetch_items_Inr [OF f] have snaps: "list_all2 snapshot_for (main_tickers sv) its"
    and w1: "w1 = w\<lparr>downloads := downloads w @ main_tickers sv\<rparr>" by simp_all
  from enrich_items_snapshots [OF snaps, of sv w1] e obtain qs where
    log: "searches w2 = searches w1 @ qs" and
    kw: "map keyword qs = map fst (filter (\<lambda>(t, it). news_due it) (zip (main_tickers sv) its))" and
    rel: "list_all2 (enriched sv w1 w2) its its'" by auto
  have sw': "searches w' = searches w2" by (simp add: w' now_utc_iso_world)
  have sw1: "searches w1 = searches w" by (simp add: w1)
  have "enriched sv w w' = enriched sv w1 w2"
    unfolding enriched_def sw' sw1 by (rule refl)
  with rel have rel': "list_all2 (enriched sv w w') its its'" by simp
  from sw' log sw1 have "searches w' = searches w @ qs" by simp
  moreover have "latest_json w' = Some \<lparr>generated_at_utc = fst (now_utc_iso sv w2),
                   tickers = main_tickers sv, portfolio_pct = pp,
                   threshold_pct = Finite 5, items = its'\<rparr>" by (simp add: w')
  ultimately show ?thesis using snaps f w1 p rel' kw by blast
qed

lemma fetch_intraday_no_data:
  assumes "yf_download sv (length (downloads w)) t = DownloadNone
           \<or> (yf_download sv (length (downloads w)) t = DownloadFrame df \<and> dropna df = [])"
  shows "\<exists>msg. (msg = msg_no_data \<or> msg = msg_no_candles)
           \<and> fst (fetch_intraday sv t w) = Inr [(''ticker'', PStr t), (''error'', PStr msg)]"
  using assms
  by (auto simp: fetch_intraday_def Let_def error_snapshot_def)

lemma error_snapshot_not_due: "\<not> news_due [(''ticker'', PStr t), (''error'', PStr msg)]"
  by (simp add: news_due_def dict_get_def)

lemma enriched_items_queries:
  assumes "list_all2 snapshot_for ts its" and "list_all2 (enriched sv w w') its its'"
    and "it' \<in> set its'"
  shows "(\<not> news_due it' \<longrightarrow> dict_get it' ''news'' = PNews [])
       \<and> (news_due it' \<longrightarrow> (\<exists>n. length (searches w) \<le> n \<and> n < length (searches w')
            \<and> dict_get it' ''ticker'' = PStr (keyword (searches w' ! n))
            \<and> dict_get it' ''news'' = PNews (news_of (article_search sv n (searches w' ! n)) 5)))"
proof -
  from assms(3) obtain i where i: "i < length its'" "it' = its' ! i"
    by (auto simp: in_set_conv_nth)
  from assms(1,2) have len: "length ts = length its" "length its = length its'"
    by (simp_all add: list_all2_lengthD)
  with i assms(1) have s: "snapshot_for (ts ! i) (its ! i)" by (simp add: list_all2_nthD)
  from i len assms(2) have e: "enriched sv w w' (its ! i) it'" by (simp add: list_all2_nthD)
  note facts = enriched_snapshot [OF s e]
  show ?thesis
  proof (cases "news_due (its ! i)")
    case False
    with facts(1,4) show ?thesis by simp
  next
    case True
    from facts(5) [OF True] obtain n where "length (searches w) \<le> n" "n < length (searches w')"
      "keyword (searches w' ! n) = ts ! i"
      "dict_get it' ''news'' = PNews (news_of (article_search sv n (searches w' ! n)) 5)"
      by blast
    with facts(1,2) True show ?thesis by (intro conjI impI exI [where x = n]) simp_all
  qed
qed

lemma news_of_raises: "news_of (SearchRaises e) max_n = [[(''error'', msg_news_failed @ e)]]"
  by (simp add: news_of_def news_try_def)

lemma news_of_empty:
  "res = SearchNone \<or> (\<exists>a. res = SearchFrame a \<and> rows a = []) \<Longrightarrow> news_of res max_n = []"
  by (auto simp: news_of_def news_try_def)

lemma news_row_sorted: "news_row (sort_values_desc c a) = news_row a"
  by (simp add: news_row_def row_get_def sort_values_desc_def fun_eq_iff)




lemma fetch_intraday_agree:
  "yf_download sv1 = yf_download sv2 \<Longrightarrow> isoformat sv1 = isoformat sv2 \<Longrightarrow>
     fetch_intraday sv1 t w = fetch_intraday sv2 t w"
  by (simp add: fetch_intraday_def Let_def split: download_result.splits sum.splits)

lemma fetch_items_agree:
  assumes "yf_download sv1 = yf_download sv2" and "isoformat sv1 = isoformat sv2"
  shows "fetch_items sv1 ts acc w = fetch_items sv2 ts acc w"
proof (induction ts arbitrary: acc w)
  case Nil
  show ?case by simp
next
  case (Cons t ts)
  have "fetch_intraday sv1 t w = fetch_intraday sv2 t w"
    by (rule fetch_intraday_agree [OF assms])
  with Cons.IH show ?case by (simp split: prod.splits sum.splits)
qed

lemma main_tickers_agree: "environ sv1 = environ sv2 \<Longrightarrow> main_tickers sv1 = main_tickers sv2"
  by (simp add: main_tickers_def getenv_def)

lemma main_weights_agree:
  assumes "environ sv1 = environ sv2" and "binary64 sv1 = binary64 sv2"
    and "float_sum sv1 = float_sum sv2"
  shows "main_weights sv1 tks = main_weights sv2 tks"
proof -
  have t: "to_binary64 sv1 = to_binary64 sv2"
    by (rule ext) (simp add: to_binary64_def assms(2) split: pyfloat.splits)
  have a: "float_of_str sv1 = float_of_str sv2"
    by (rule ext) (simp add: float_of_str_def t split: sum.splits)
  have b: "float_div sv1 = float_div sv2"
    by (intro ext) (simp add: float_div_def t split: sum.splits)
  have "weights_try sv1 e tks = weights_try sv2 e tks" for e
    unfolding weights_try_def a b assms(3) by (rule refl)
  with assms(1) show ?thesis by (simp add: main_weights_def getenv_def Let_def)
qed

lemma enrich_item_agree:
  assumes srch: "\<forall>n f1 f2. keyword f1 = keyword f2 \<longrightarrow> article_search sv1 n f1 = article_search sv2 n f2"
    and len: "length (searches w1) = length (searches w2)"
  shows "fst (enrich_item sv1 it w1) = fst (enrich_item sv2 it w2)
       \<and> length (searches (snd (enrich_item sv1 it w1)))
           = length (searches (snd (enrich_item sv2 it w2)))"
proof -
  have same: "article_search sv1 (length (searches w1)) (fst (gdelt_filters sv1 q 72 w1))
            = article_search sv2 (length (searches w2)) (fst (gdelt_filters sv2 q 72 w2))" for q
  proof -
    have "keyword (fst (gdelt_filters sv1 q 72 w1)) = keyword (fst (gdelt_filters sv2 q 72 w2))"
      by (simp only: keyword_gdelt_filters)
    with srch have "article_search sv1 (length (searches w1)) (fst (gdelt_filters sv1 q 72 w1))
            = article_search sv2 (length (searches w1)) (fst (gdelt_filters sv2 q 72 w2))"
      by blast
    then show ?thesis by (simp only: len)
  qed
  have n1: "fst (fetch_news_gdelt sv1 q 72 5 w1) = fst (fetch_news_gdelt sv2 q 72 5 w2)" for q
    by (simp only: fetch_news_gdelt_eq fst_conv same)
  have n2: "length (searches (snd (fetch_news_gdelt sv1 q 72 5 w1)))
           = length (searches (snd (fetch_news_gdelt sv2 q 72 5 w2)))" for q
    by (simp add: fetch_news_gdelt_eq len)
  show ?thesis
  proof (cases "dict_get it ''pct''")
    case PNone
    with len show ?thesis by (simp add: enrich_item_def)
  next
    case (PStr x)
    with len show ?thesis by (simp add: enrich_item_def)
  next
    case (PNews x)
    with len show ?thesis by (simp add: enrich_item_def)
  next
    case (PFloat p)
    show ?thesis
    proof (cases "fge (fabs p) (Finite 5)")
      case False
      with PFloat len show ?thesis by (simp add: enrich_item_def)
    next
      case True
      show ?thesis
      proof (cases "dict_item it ''ticker''")
        case (Inl e)
        with PFloat True len show ?thesis by (simp add: enrich_item_def)
      next
        case (Inr v)
        show ?thesis
        proof (cases v)
          case (PStr q)
          have e: "enrich_item sv it w
                = (Inr (dict_set it ''news'' (PNews (fst (fetch_news_gdelt sv q 72 5 w)))),
                   snd (fetch_news_gdelt sv q 72 5 w))" for sv w
            using PFloat True Inr PStr by (simp add: enrich_item_def split: prod.splits)
          show ?thesis unfolding e fst_conv snd_conv using n1 [of q] n2 [of q] by simp
        next
          case PNone
          with PFloat True Inr len show ?thesis by (simp add: enrich_item_def)
        next
          case (PFloat x)
          with \<open>dict_get it ''pct'' = PFloat p\<close> True Inr len show ?thesis
            by (simp add: enrich_item_def)
        next
          case (PNews x)
          with PFloat True Inr len show ?thesis by (simp add: enrich_item_def)
        qed
      qed
    qed
  qed
qed

lemma enrich_items_agree:
  assumes srch: "\<forall>n f1 f2. keyword f1 = keyword f2 \<longrightarrow> article_search sv1 n f1 = article_search sv2 n f2"
  shows "length (searches w1) = length (searches w2) \<Longrightarrow>
           fst (enrich_items sv1 its w1) = fst (enrich_items sv2 its w2)"
proof (induction its arbitrary: w1 w2)
  case Nil
  show ?case by simp
next
  case (Cons it its)
  obtain r1 v1 where e1: "enrich_item sv1 it w1 = (r1, v1)" by (cases "enrich_item sv1 it w1")
  obtain r2 v2 where e2: "enrich_item sv2 it w2 = (r2, v2)" by (cases "enrich_item sv2 it w2")
  from enrich_item_agree [OF srch Cons.prems, of it] e1 e2
  have r: "r1 = r2" and l: "length (searches v1) = length (searches v2)" by simp_all
  from e2 r have e2': "enrich_item sv2 it w2 = (r1, v2)" by simp
  show ?case
  proof (cases r1)
    case (Inl e)
    with e1 e2' show ?thesis by simp
  next
    case (Inr it')
    obtain q1 u1 where s1: "enrich_items sv1 its v1 = (q1, u1)"
      by (cases "enrich_items sv1 its v1")
    obtain q2 u2 where s2: "enrich_items sv2 its v2 = (q2, u2)"
      by (cases "enrich_items sv2 its v2")
    from Cons.IH [OF l] s1 s2 have "q1 = q2" by simp
    with s2 have s2': "enrich_items sv2 its v2 = (q1, u2)" by simp
    from Inr e1 e2' s1 s2' show ?thesis by (cases q1) simp_all
  qed
qed



text \<open>
  The fetch phase when no download raises: the run completes and writes one item per
  ticker; a ticker whose download returned nothing, an empty frame or a frame without a
  complete row gets from \<open>fetch_intraday\<close> the snapshot of \<open>ticker\<close> and \<open>error\<close> alone, to
  which the news loop adds an empty \<open>news\<close>.
\<close>

theorem fetch_failure_captured:
  assumes "\<forall>n t e. yf_download sv n t \<noteq> DownloadRaises e"
  shows "\<exists>w' rep. main sv w = (Inr (), w') \<and> latest_json w' = Some rep
           \<and> length (items rep) = length (main_tickers sv)
           \<and> (\<forall>i<length (main_tickers sv). \<forall>df.
                 (yf_download sv (length (downloads w) + i) (main_tickers sv ! i) = DownloadNone
                  \<or> (yf_download sv (length (downloads w) + i) (main_tickers sv ! i) = DownloadFrame df
                     \<and> dropna df = []))
                 \<longrightarrow> (\<exists>msg. (msg = msg_no_data \<or> msg = msg_no_candles)
                        \<and> fst (fetch_intraday sv (main_tickers sv ! i)
                                 (w\<lparr>downloads := downloads w @ take i (main_tickers sv)\<rparr>))
                            = Inr [(''ticker'', PStr (main_tickers sv ! i)), (''error'', PStr msg)]
                        \<and> items rep ! i
                            = [(''ticker'', PStr (main_tickers sv ! i)), (''error'', PStr msg),
                               (''news'', PNews [])]))"
proof -
  from main_no_raise [OF assms] obtain w' where run: "main sv w = (Inr (), w')" by blast
  from main_report [OF run] obtain its its' w2 pp where
    snaps: "list_all2 snapshot_for (main_tickers sv) its" and
    f: "fetch_items sv (main_tickers sv) [] w
          = (Inr its, w\<lparr>downloads := downloads w @ main_tickers sv\<rparr>)" and
    rel: "list_all2 (enriched sv w w') its its'" and
    rep: "latest_json w' =
             Some \<lparr>generated_at_utc = fst (now_utc_iso sv w2),
                   tickers = main_tickers sv,
                   portfolio_pct = pp,
                   threshold_pct = Finite 5,
                   items = its'\<rparr>" by blast
  let ?ts = "main_tickers sv"
  from snaps rel have len: "length its' = length ?ts" "length its = length ?ts"
    by (simp_all add: list_all2_lengthD)
  have each: "\<exists>msg. (msg = msg_no_data \<or> msg = msg_no_candles)
                \<and> fst (fetch_intraday sv (?ts ! i) (w\<lparr>downloads := downloads w @ take i ?ts\<rparr>))
                    = Inr [(''ticker'', PStr (?ts ! i)), (''error'', PStr msg)]
                \<and> its' ! i = [(''ticker'', PStr (?ts ! i)), (''error'', PStr msg), (''news'', PNews [])]"
    if i: "i < length ?ts"
      and nd: "yf_download sv (length (downloads w) + i) (?ts ! i) = DownloadNone
               \<or> (yf_download sv (length (downloads w) + i) (?ts ! i) = DownloadFrame df
                  \<and> dropna df = [])"
    for i df
  proof -
    let ?wi = "w\<lparr>downloads := downloads w @ take i ?ts\<rparr>"
    from i have "length (downloads ?wi) = length (downloads w) + i" by simp
    with nd have "yf_download sv (length (downloads ?wi)) (?ts ! i) = DownloadNone
               \<or> (yf_download sv (length (downloads ?wi)) (?ts ! i) = DownloadFrame df
                  \<and> dropna df = [])" by simp
    from fetch_intraday_no_data [OF this] obtain msg where
      m: "msg = msg_no_data \<or> msg = msg_no_candles" and
      fi: "fst (fetch_intraday sv (?ts ! i) ?wi)
             = Inr [(''ticker'', PStr (?ts ! i)), (''error'', PStr msg)]" by blast
    from fetch_items_nth [OF f i] fi
    have iti: "its ! i = [(''ticker'', PStr (?ts ! i)), (''error'', PStr msg)]" by simp
    from rel i len have "enriched sv w w' (its ! i) (its' ! i)" by (simp add: list_all2_nthD)
    with iti error_snapshot_not_due [of "?ts ! i" msg]
    have "its' ! i = [(''ticker'', PStr (?ts ! i)), (''error'', PStr msg), (''news'', PNews [])]"
      by (auto simp: enriched_def)
    with m fi show ?thesis by blast
  qed
  from run rep len each show ?thesis by auto
qed

theorem fetch_failure_captured_witness:
  "(\<forall>n t e. yf_download scenario n t \<noteq> DownloadRaises e)
   \<and> (\<exists>w' rep msg. main scenario world0 = (Inr (), w') \<and> latest_json w' = Some rep
         \<and> length (items rep) = 2
         \<and> items rep ! 1 = [(''ticker'', PStr ''BBB''), (''error'', PStr msg), (''news'', PNews [])])"
proof -
  have h: "\<forall>n t e. yf_download scenario n t \<noteq> DownloadRaises e"
    by (simp add: scenario_def)
  have tk: "main_tickers scenario = [''AAA'', ''BBB'']" by code_simp
  have nd: "yf_download scenario (length (downloads world0) + 1) (main_tickers scenario ! 1)
              = DownloadNone"
    unfolding tk by (simp add: scenario_def)
  from fetch_failure_captured [OF h, of world0] obtain w' rep where
    run: "main scenario world0 = (Inr (), w')" "latest_json w' = Some rep"
      "length (items rep) = length (main_tickers scenario)" and
    each: "\<forall>i<length (main_tickers scenario). \<forall>df.
                 (yf_download scenario (length (downloads world0) + i) (main_tickers scenario ! i)
                    = DownloadNone
                  \<or> (yf_download scenario (length (downloads world0) + i) (main_tickers scenario ! i)
                       = DownloadFrame df
                     \<and> dropna df = []))
                 \<longrightarrow> (\<exists>msg. (msg = msg_no_data \<or> msg = msg_no_candles)
                        \<and> fst (fetch_intraday scenario (main_tickers scenario ! i)
                                 (world0\<lparr>downloads := downloads world0 @ take i (main_tickers scenario)\<rparr>))
                            = Inr [(''ticker'', PStr (main_tickers scenario ! i)), (''error'', PStr msg)]
                        \<and> items rep ! i
                            = [(''ticker'', PStr (main_tickers scenario ! i)), (''error'', PStr msg),
                               (''news'', PNews [])])"
    by blast
  from each nd have "\<exists>msg. items rep ! 1
      = [(''ticker'', PStr (main_tickers scenario ! 1)), (''error'', PStr msg), (''news'', PNews [])]"
    by (auto simp: tk)
  with run h show ?thesis by (auto simp: tk)
qed

text \<open>
  Claim C1. The claim asks that any fetch error of one ticker be captured in that ticker's
  snapshot as \<open>error\<close> and that the run go on. \<open>fetch_intraday\<close> calls the download outside
  any \<open>try\<close>, unlike \<open>fetch_news_gdelt\<close>: with \<open>TICKERS="AAA,BBB"\<close>, a frame for AAA and a
  download that raises for BBB, both downloads are issued, the exception of the second
  leaves \<open>main\<close>, no search is made and no document is written.
\<close>

theorem fetch_exception_aborts_run:
  "fst (main scenario_download_raises world0) = Inl (ProviderError ''connection reset'')
   \<and> downloads (snd (main scenario_download_raises world0)) = [''AAA'', ''BBB'']
   \<and> searches (snd (main scenario_download_raises world0)) = []
   \<and> latest_json (snd (main scenario_download_raises world0)) = None"
  by code_simp



text \<open>
  Claim C4. In a run that writes its document, the news searches issued are, in order,
  one for each item whose \<open>pct\<close> is not null and at least 5.0 in absolute value, with that
  item's ticker as keyword; every other item, an error snapshot included, has the empty
  news list and no search.
\<close>

theorem news_searches_only_when_due:
  assumes "main sv w = (Inr (), w')"
  shows "\<exists>rep qs. latest_json w' = Some rep
           \<and> searches w' = searches w @ qs
           \<and> map (\<lambda>q. PStr (keyword q)) qs
               = map (\<lambda>it. dict_get it ''ticker'') (filter news_due (items rep))
           \<and> (\<forall>it\<in>set (items rep). \<not> news_due it \<longrightarrow> dict_get it ''news'' = PNews [])
           \<and> (\<forall>it\<in>set (items rep). dict_get it ''error'' \<noteq> PNone \<longrightarrow> \<not> news_due it)"
proof -
  from main_report [OF assms] obtain its its' w2 pp qs where
    snaps: "list_all2 snapshot_for (main_tickers sv) its" and
    rel: "list_all2 (enriched sv w w') its its'" and
    log: "searches w' = searches w @ qs" and
    kw: "map keyword qs
           = map fst (filter (\<lambda>(t, it). news_due it) (zip (main_tickers sv) its))" and
    rep: "latest_json w' =
             Some \<lparr>generated_at_utc = fst (now_utc_iso sv w2),
                   tickers = main_tickers sv,
                   portfolio_pct = pp,
                   threshold_pct = Finite 5,
                   items = its'\<rparr>" by blast
  have "map (\<lambda>q. PStr (keyword q)) qs = map PStr (map keyword qs)" by simp
  also have "\<dots> = map (\<lambda>it. dict_get it ''ticker'') (filter news_due its')"
    unfolding kw by (rule enriched_queries [OF snaps rel])
  finally have order: "map (\<lambda>q. PStr (keyword q)) qs
      = map (\<lambda>it. dict_get it ''ticker'') (filter news_due its')" .
  have quiet: "\<forall>it\<in>set its'. \<not> news_due it \<longrightarrow> dict_get it ''news'' = PNews []"
    using enriched_items_queries [OF snaps rel] by blast
  have err: "\<forall>it\<in>set its'. dict_get it ''error'' \<noteq> PNone \<longrightarrow> \<not> news_due it"
  proof (intro ballI impI)
    fix it' assume mem: "it' \<in> set its'" and e: "dict_get it' ''error'' \<noteq> PNone"
    from mem obtain i where i: "i < length its'" "it' = its' ! i"
      by (auto simp: in_set_conv_nth)
    from snaps rel have len: "length (main_tickers sv) = length its" "length its = length its'"
      by (simp_all add: list_all2_lengthD)
    with i snaps have s: "snapshot_for (main_tickers sv ! i) (its ! i)"
      by (simp add: list_all2_nthD)
    from i len rel have en: "enriched sv w w' (its ! i) it'" by (simp add: list_all2_nthD)
    then obtain ns where it': "it' = its ! i @ [(''news'', PNews ns)]"
      unfolding enriched_def by blast
    from s e it' have "\<exists>msg. its ! i = error_snapshot (main_tickers sv ! i) msg"
      by (auto simp: snapshot_for_def dict_get_def)
    then have "\<not> news_due (its ! i)"
      by (auto simp: error_snapshot_def error_snapshot_not_due)
    with enriched_snapshot(1) [OF s en] show "\<not> news_due it'" by simp
  qed
  from rep log order quiet err show ?thesis by simp
qed

theorem news_searches_only_when_due_witness:
  "\<exists>rep. latest_json (snd (main scenario world0)) = Some rep
     \<and> map keyword (searches (snd (main scenario world0))) = [''AAA'']
     \<and> filter news_due (items rep) = [items rep ! 0]
     \<and> dict_get (items rep ! 1) ''news'' = PNews []"
proof -
  have "fst (main scenario world0) = Inr ()" by code_simp
  then have run: "main scenario world0 = (Inr (), snd (main scenario world0))"
    by (simp add: prod_eq_iff)
  from news_searches_only_when_due [OF run] obtain rep where
    rep: "latest_json (snd (main scenario world0)) = Some rep" by blast
  have ev: "map_option (\<lambda>r. (filter news_due (items r) = [items r ! 0],
              dict_get (items r ! 1) ''news'' = PNews []))
              (latest_json (snd (main scenario world0))) = Some (True, True)"
    by code_simp
  have s: "map keyword (searches (snd (main scenario world0))) = [''AAA'']" by code_simp
  from rep ev s show ?thesis by (intro exI [where x = rep]) simp
qed

text \<open>
  Claim C5. In the document a run writes, \<open>items\<close> has as many entries as \<open>tickers\<close>, the
  resolved ticker list, and the i-th item carries the i-th ticker, whatever the providers
  answered.
\<close>

theorem items_follow_tickers:
  assumes "main sv w = (Inr (), w')"
  shows "\<exists>rep. latest_json w' = Some rep
           \<and> tickers rep = main_tickers sv
           \<and> length (items rep) = length (tickers rep)
           \<and> (\<forall>i<length (tickers rep). dict_get (items rep ! i) ''ticker'' = PStr (tickers rep ! i))"
proof -
  from main_report [OF assms] obtain its its' w2 pp where
    snaps: "list_all2 snapshot_for (main_tickers sv) its" and
    rel: "list_all2 (enriched sv w w') its its'" and
    rep: "latest_json w' =
             Some \<lparr>generated_at_utc = fst (now_utc_iso sv w2),
                   tickers = main_tickers sv,
                   portfolio_pct = pp,
                   threshold_pct = Finite 5,
                   items = its'\<rparr>" by blast
  from snaps rel have len: "length its' = length (main_tickers sv)"
    by (simp add: list_all2_lengthD)
  have "dict_get (its' ! i) ''ticker'' = PStr (main_tickers sv ! i)"
    if "i < length (main_tickers sv)" for i
  proof -
    from snaps that have s: "snapshot_for (main_tickers sv ! i) (its ! i)"
      by (simp add: list_all2_nthD)
    from snaps that have "i < length its" by (simp add: list_all2_lengthD)
    with rel have "enriched sv w w' (its ! i) (its' ! i)" by (simp add: list_all2_nthD)
    from enriched_snapshot(2) [OF s this] show ?thesis .
  qed
  with rep len show ?thesis by simp
qed

theorem items_follow_tickers_witness:
  "\<exists>rep. latest_json (snd (main scenario world0)) = Some rep
     \<and> tickers rep = [''AAA'', ''BBB'']
     \<and> length (items rep) = 2
     \<and> dict_get (items rep ! 0) ''ticker'' = PStr ''AAA''
     \<and> dict_get (items rep ! 1) ''ticker'' = PStr ''BBB''"
proof -
  have "fst (main scenario world0) = Inr ()" by code_simp
  then have run: "main scenario world0 = (Inr (), snd (main scenario world0))"
    by (simp add: prod_eq_iff)
  have tk: "main_tickers scenario = [''AAA'', ''BBB'']" by code_simp
  from items_follow_tickers [OF run] obtain rep where
    "latest_json (snd (main scenario world0)) = Some rep"
    "tickers rep = main_tickers scenario"
    "length (items rep) = length (tickers rep)"
    "\<forall>i<length (tickers rep). dict_get (items rep ! i) ''ticker'' = PStr (tickers rep ! i)"
    by blast
  with tk show ?thesis by (intro exI [where x = rep]) simp
qed

text \<open>
  Claim C6, as the code has it. Weights are accepted exactly when every piece of \<open>WEIGHTS\<close>
  converts with \<open>float\<close>, there are as many pieces as tickers and their \<open>sum\<close> is greater
  than zero. Accepted weights are the parsed values, each divided by that sum. Whatever
  the block raises, the result is \<open>None\<close>. This holds for every rounding and every \<open>sum\<close>
  the interpreter may have.
\<close>

theorem weights_accepted_iff:
  "((\<exists>ws. main_weights sv tks = Some ws) \<longleftrightarrow>
      (\<exists>vs. map (\<lambda>x. float_of_str sv (strip x)) (split_on CHR '','' (getenv sv ''WEIGHTS'' []))
             = map Inr vs
           \<and> length vs = length tks \<and> fgt (float_sum sv vs) (Finite 0)))
   \<and> (\<forall>ws. main_weights sv tks = Some ws \<longrightarrow>
        (\<exists>vs. map (\<lambda>x. float_of_str sv (strip x)) (split_on CHR '','' (getenv sv ''WEIGHTS'' []))
               = map Inr vs
             \<and> map (\<lambda>x. float_div sv x (float_sum sv vs)) vs = map Inr ws))
   \<and> (\<forall>e. weights_try sv (getenv sv ''WEIGHTS'' []) tks = Inl e \<longrightarrow> main_weights sv tks = None)"
proof (intro conjI allI impI)
  let ?env = "getenv sv ''WEIGHTS'' []"
  let ?parsed = "\<lambda>vs. map (\<lambda>x. float_of_str sv (strip x)) (split_on CHR '','' ?env) = map Inr vs"
  show "(\<exists>ws. main_weights sv tks = Some ws) \<longleftrightarrow>
      (\<exists>vs. ?parsed vs \<and> length vs = length tks \<and> fgt (float_sum sv vs) (Finite 0))"
  proof
    assume "\<exists>ws. main_weights sv tks = Some ws"
    then obtain ws where "weights_try sv ?env tks = Inr (Some ws)"
      by (auto simp: main_weights_Some_iff)
    then show "\<exists>vs. ?parsed vs \<and> length vs = length tks \<and> fgt (float_sum sv vs) (Finite 0)"
      unfolding weights_try_Some_iff by blast
  next
    assume "\<exists>vs. ?parsed vs \<and> length vs = length tks \<and> fgt (float_sum sv vs) (Finite 0)"
    then obtain vs where p: "?parsed vs" and l: "length vs = length tks"
      and g: "fgt (float_sum sv vs) (Finite 0)" by blast
    have ne: "?env \<noteq> []"
    proof
      assume "?env = []"
      with p have "[float_of_str sv (strip [])] = map Inr vs" by simp
      then show False by (cases vs) (simp_all add: float_of_str_empty)
    qed
    from g have "float_sum sv vs \<noteq> Finite 0" by (rule fgt_zero_nonzero)
    from normalized_exists [OF this, where vs = vs and sv = sv] obtain ws where
      "map (\<lambda>x. float_div sv x (float_sum sv vs)) vs = map Inr ws" by blast
    with p l g have "weights_try sv ?env tks = Inr (Some ws)"
      unfolding weights_try_Some_iff by blast
    with ne show "\<exists>ws. main_weights sv tks = Some ws"
      by (auto simp: main_weights_Some_iff)
  qed
next
  fix ws
  let ?env = "getenv sv ''WEIGHTS'' []"
  assume "main_weights sv tks = Some ws"
  then have "weights_try sv ?env tks = Inr (Some ws)" by (simp add: main_weights_Some_iff)
  then show "\<exists>vs. map (\<lambda>x. float_of_str sv (strip x)) (split_on CHR '','' ?env) = map Inr vs
             \<and> map (\<lambda>x. float_div sv x (float_sum sv vs)) vs = map Inr ws"
    unfolding weights_try_Some_iff by blast
next
  fix e
  assume "weights_try sv (getenv sv ''WEIGHTS'' []) tks = Inl e"
  then show "main_weights sv tks = None" by (simp add: main_weights_def Let_def)
qed

theorem weights_accepted_iff_witness:
  "main_weights weighted_scenario [''A'', ''B'', ''C'']
      = Some [Finite (1 / 2), Finite (3 / 10), Finite (1 / 5)]
   \<and> map (\<lambda>x. float_of_str weighted_scenario (strip x))
         (split_on CHR '','' (getenv weighted_scenario ''WEIGHTS'' []))
      = map Inr [Finite (1 / 2), Finite (3 / 10), Finite (1 / 5)]
   \<and> fgt (float_sum weighted_scenario [Finite (1 / 2), Finite (3 / 10), Finite (1 / 5)]) (Finite 0)
   \<and> main_weights scenario [''AAA'', ''BBB''] = None"
proof -
  let ?ws = "[Finite (1 / 2), Finite (3 / 10), Finite (1 / 5)]"
  have mw: "main_weights weighted_scenario [''A'', ''B'', ''C''] = Some ?ws" by code_simp
  have pa: "map (\<lambda>x. float_of_str weighted_scenario (strip x))
              (split_on CHR '','' (getenv weighted_scenario ''WEIGHTS'' []))
      = map Inr ?ws" by code_simp
  from weights_accepted_iff [of weighted_scenario "[''A'', ''B'', ''C'']"] mw obtain vs where
    p: "map (\<lambda>x. float_of_str weighted_scenario (strip x))
          (split_on CHR '','' (getenv weighted_scenario ''WEIGHTS'' [])) = map Inr vs" and
    g: "fgt (float_sum weighted_scenario vs) (Finite 0)" by blast
  from p [symmetric] pa
  have "map (Inr :: pyfloat \<Rightarrow> py_error + pyfloat) vs = map Inr ?ws" by (rule trans)
  then have "vs = ?ws" by (rule map_Inr_inject)
  with g have pos: "fgt (float_sum weighted_scenario ?ws) (Finite 0)" by simp
  have "weights_try scenario (getenv scenario ''WEIGHTS'' []) [''AAA'', ''BBB''] = Inl ValueError"
    by code_simp
  with weights_accepted_iff [of scenario "[''AAA'', ''BBB'']"]
  have none: "main_weights scenario [''AAA'', ''BBB''] = None" by blast
  from mw pa pos none show ?thesis by blast
qed

text \<open>
  Claim C6 as stated fails: \<open>WEIGHTS="inf,1"\<close> for two tickers is accepted, and the
  weights it yields, NaN and 0, do not sum to 1.
\<close>

theorem inf_weights_accepted:
  "main_weights scenario_inf_weights (main_tickers scenario_inf_weights) = Some [NaN, Finite 0]
   \<and> float_sum scenario_inf_weights [NaN, Finite 0] \<noteq> Finite 1"
proof -
  have "main_weights scenario_inf_weights (main_tickers scenario_inf_weights) = Some [NaN, Finite 0]"
    by code_simp
  moreover have "float_sum scenario_inf_weights [NaN, Finite 0] = NaN" by code_simp
  ultimately show ?thesis by simp
qed

text \<open>
  Claim C7. When \<open>article_search\<close> raises, \<open>fetch_news_gdelt\<close> returns the one-element list
  holding \<open>error\<close> with the message, and raises nothing. A run in which no download raises
  completes and writes its document whatever the searches do, and every item for which
  news was due holds what \<open>fetch_news_gdelt\<close> made of one search of the run for its ticker.
\<close>

theorem news_failure_contained:
  "(article_search sv (length (searches w)) (fst (gdelt_filters sv query hours_back w))
      = SearchRaises e
    \<longrightarrow> fst (fetch_news_gdelt sv query hours_back max_n w)
          = [[(''error'', msg_news_failed @ e)]])
   \<and> ((\<forall>n t x. yf_download sv n t \<noteq> DownloadRaises x) \<longrightarrow>
        (\<exists>w' rep. main sv w = (Inr (), w') \<and> latest_json w' = Some rep
           \<and> (\<forall>it\<in>set (items rep). news_due it \<longrightarrow>
                (\<exists>n. length (searches w) \<le> n \<and> n < length (searches w')
                   \<and> dict_get it ''ticker'' = PStr (keyword (searches w' ! n))
                   \<and> dict_get it ''news''
                       = PNews (news_of (article_search sv n (searches w' ! n)) 5)
                   \<and> (\<forall>x. article_search sv n (searches w' ! n) = SearchRaises x
                          \<longrightarrow> dict_get it ''news''
                                = PNews [[(''error'', msg_news_failed @ x)]])))))"
proof (intro conjI impI)
  assume "article_search sv (length (searches w)) (fst (gdelt_filters sv query hours_back w))
      = SearchRaises e"
  then show "fst (fetch_news_gdelt sv query hours_back max_n w)
          = [[(''error'', msg_news_failed @ e)]]"
    by (simp add: fetch_news_gdelt_eq news_of_raises)
next
  assume nr: "\<forall>n t x. yf_download sv n t \<noteq> DownloadRaises x"
  from main_no_raise [OF nr] obtain w' where run: "main sv w = (Inr (), w')" by blast
  from main_report [OF run] obtain its its' w2 pp where
    snaps: "list_all2 snapshot_for (main_tickers sv) its" and
    rel: "list_all2 (enriched sv w w') its its'" and
    rep: "latest_json w' =
             Some \<lparr>generated_at_utc = fst (now_utc_iso sv w2),
                   tickers = main_tickers sv,
                   portfolio_pct = pp,
                   threshold_pct = Finite 5,
                   items = its'\<rparr>" by blast
  have "\<exists>n. length (searches w) \<le> n \<and> n < length (searches w')
           \<and> dict_get it ''ticker'' = PStr (keyword (searches w' ! n))
           \<and> dict_get it ''news'' = PNews (news_of (article_search sv n (searches w' ! n)) 5)
           \<and> (\<forall>x. article_search sv n (searches w' ! n) = SearchRaises x
                  \<longrightarrow> dict_get it ''news'' = PNews [[(''error'', msg_news_failed @ x)]])"
    if "it \<in> set its'" "news_due it" for it
  proof -
    from enriched_items_queries [OF snaps rel that(1)] that(2) obtain n where
      n: "length (searches w) \<le> n" "n < length (searches w')"
         "dict_get it ''ticker'' = PStr (keyword (searches w' ! n))"
         "dict_get it ''news'' = PNews (news_of (article_search sv n (searches w' ! n)) 5)"
      by blast
    then have "\<forall>x. article_search sv n (searches w' ! n) = SearchRaises x
                  \<longrightarrow> dict_get it ''news'' = PNews [[(''error'', msg_news_failed @ x)]]"
      by (simp add: news_of_raises)
    with n show ?thesis by (intro exI [where x = n]) simp
  qed
  with run rep show "\<exists>w' rep. main sv w = (Inr (), w') \<and> latest_json w' = Some rep
           \<and> (\<forall>it\<in>set (items rep). news_due it \<longrightarrow>
                (\<exists>n. length (searches w) \<le> n \<and> n < length (searches w')
                   \<and> dict_get it ''ticker'' = PStr (keyword (searches w' ! n))
                   \<and> dict_get it ''news''
                       = PNews (news_of (article_search sv n (searches w' ! n)) 5)
                   \<and> (\<forall>x. article_search sv n (searches w' ! n) = SearchRaises x
                          \<longrightarrow> dict_get it ''news''
                                = PNews [[(''error'', msg_news_failed @ x)]])))"
    by simp
qed

theorem news_failure_contained_witness:
  "(\<forall>n t x. yf_download scenario_search_raises n t \<noteq> DownloadRaises x)
   \<and> article_search scenario_search_raises 0 (fst (gdelt_filters scenario_search_raises ''AAA'' 72 world0))
       = SearchRaises ''timeout''
   \<and> fst (fetch_news_gdelt scenario_search_raises ''AAA'' 72 5 world0)
       = [[(''error'', msg_news_failed @ ''timeout'')]]
   \<and> (\<exists>w' rep. main scenario_search_raises world0 = (Inr (), w') \<and> latest_json w' = Some rep
         \<and> news_due (items rep ! 0)
         \<and> dict_get (items rep ! 0) ''news'' = PNews [[(''error'', msg_news_failed @ ''timeout'')]])"
proof -
  have h: "\<forall>n t x. yf_download scenario_search_raises n t \<noteq> DownloadRaises x"
    by (simp add: scenario_search_raises_def scenario_def)
  have r: "article_search scenario_search_raises (length (searches world0))
             (fst (gdelt_filters scenario_search_raises ''AAA'' 72 world0)) = SearchRaises ''timeout''"
    by (simp add: scenario_search_raises_def)
  note inst = news_failure_contained [of scenario_search_raises world0 "''AAA''" 72 "''timeout''" 5]
  from inst r have a: "fst (fetch_news_gdelt scenario_search_raises ''AAA'' 72 5 world0)
       = [[(''error'', msg_news_failed @ ''timeout'')]]" by blast
  from inst h obtain w' rep where
    run: "main scenario_search_raises world0 = (Inr (), w')" "latest_json w' = Some rep"
    by blast
  then have w': "w' = snd (main scenario_search_raises world0)" by simp
  have "map_option (\<lambda>r. (news_due (items r ! 0),
           dict_get (items r ! 0) ''news'' = PNews [[(''error'', msg_news_failed @ ''timeout'')]]))
         (latest_json (snd (main scenario_search_raises world0))) = Some (True, True)"
    by code_simp
  with run w' have "news_due (items rep ! 0)
      \<and> dict_get (items rep ! 0) ''news'' = PNews [[(''error'', msg_news_failed @ ''timeout'')]]"
    by simp
  with h r a run show ?thesis by (simp add: world0_def)
qed

text \<open>
  Claim C8. For a frame with at least one row, the news list is made from the first five
  rows of the frame after sorting: the sorted rows are the same rows, in descending order
  of \<open>seendate\<close> when the frame has that column and in the provider's order otherwise.
  Each kept row becomes the four keys \<open>title\<close>, \<open>url\<close>, \<open>seendate\<close> and \<open>domain\<close>, holding
  the row's cell, or the empty string when the frame has no such column.
\<close>

theorem news_sorted_truncated_reduced:
  assumes "rows a \<noteq> []"
  shows "\<exists>srt. news_of (SearchFrame a) 5 = map (news_row a) (take 5 srt)
           \<and> mset srt = mset (rows a)
           \<and> (''seendate'' \<in> set (columns a) \<longrightarrow> sorted (rev (map (\<lambda>r. r ''seendate'') srt)))
           \<and> (''seendate'' \<notin> set (columns a) \<longrightarrow> srt = rows a)
           \<and> length (news_of (SearchFrame a) 5) = min 5 (length (rows a))
           \<and> (\<forall>r. news_row a r =
                 [(''title'', if ''title'' \<in> set (columns a) then r ''title'' else []),
                  (''url'', if ''url'' \<in> set (columns a) then r ''url'' else []),
                  (''seendate'', if ''seendate'' \<in> set (columns a) then r ''seendate'' else []),
                  (''domain'', if ''domain'' \<in> set (columns a) then r ''domain'' else [])])"
proof -
  have shape: "\<forall>r. news_row a r =
                 [(''title'', if ''title'' \<in> set (columns a) then r ''title'' else []),
                  (''url'', if ''url'' \<in> set (columns a) then r ''url'' else []),
                  (''seendate'', if ''seendate'' \<in> set (columns a) then r ''seendate'' else []),
                  (''domain'', if ''domain'' \<in> set (columns a) then r ''domain'' else [])]"
    by (simp add: news_row_def row_get_def)
  show ?thesis
  proof (cases "''seendate'' \<in> set (columns a)")
    case False
    with assms have "news_of (SearchFrame a) 5 = map (news_row a) (take 5 (rows a))"
      by (simp add: news_of_def news_try_def head_def)
    with False shape show ?thesis by (intro exI [where x = "rows a"]) simp
  next
    case True
    let ?srt = "rev (sort_key (\<lambda>r. r ''seendate'') (rev (rows a)))"
    from True assms have eq: "news_of (SearchFrame a) 5 = map (news_row a) (take 5 ?srt)"
      by (simp add: news_of_def news_try_def head_def news_row_sorted)
         (simp add: sort_values_desc_def)
    have perm: "mset ?srt = mset (rows a)" by simp
    have desc: "sorted (rev (map (\<lambda>r. r ''seendate'') ?srt))"
      by (simp add: rev_map [symmetric])
    have "length ?srt = length (rows a)" by simp
    with eq have len: "length (news_of (SearchFrame a) 5) = min 5 (length (rows a))"
      by (simp add: min.commute)
    from True eq perm desc len shape show ?thesis
      by (intro exI [where x = ?srt]) simp
  qed
qed

theorem news_sorted_truncated_reduced_witness:
  "rows two_articles \<noteq> []
   \<and> length (news_of (SearchFrame two_articles) 5) = 2
   \<and> news_of (SearchFrame two_articles) 5
       = [[(''title'', ''newer''), (''url'', []), (''seendate'', ''20240102T000000Z''), (''domain'', [])],
          [(''title'', ''older''), (''url'', []), (''seendate'', ''20240101T000000Z''), (''domain'', [])]]"
proof -
  have ne: "rows two_articles \<noteq> []" by (simp add: two_articles_def)
  from news_sorted_truncated_reduced [OF ne]
  have "length (news_of (SearchFrame two_articles) 5) = min 5 (length (rows two_articles))"
    by blast
  then have len: "length (news_of (SearchFrame two_articles) 5) = 2"
    by (simp add: two_articles_def)
  have "news_of (SearchFrame two_articles) 5
       = [[(''title'', ''newer''), (''url'', []), (''seendate'', ''20240102T000000Z''), (''domain'', [])],
          [(''title'', ''older''), (''url'', []), (''seendate'', ''20240101T000000Z''), (''domain'', [])]]"
    by code_simp
  with ne len show ?thesis by simp
qed

text \<open>
  Claim C9. Two runs from the same state, with the same environment, the same answers to
  the downloads and, search by search, the same answer for the same keyword whatever the
  dates of the query, may read different clocks: if the first writes a document, so does
  the second, and the two documents differ in \<open>generated_at_utc\<close> at most.
\<close>

theorem report_deterministic:
  assumes env: "environ sv1 = environ sv2"
    and dl: "yf_download sv1 = yf_download sv2"
    and iso: "isoformat sv1 = isoformat sv2"
    and b64: "binary64 sv1 = binary64 sv2"
    and fsum: "float_sum sv1 = float_sum sv2"
    and srch: "\<forall>n f1 f2. keyword f1 = keyword f2
                 \<longrightarrow> article_search sv1 n f1 = article_search sv2 n f2"
    and run: "main sv1 w = (Inr (), w1)"
  shows "\<exists>w2 r1 r2. main sv2 w = (Inr (), w2)
           \<and> latest_json w1 = Some r1 \<and> latest_json w2 = Some r2
           \<and> r2 = r1\<lparr>generated_at_utc := generated_at_utc r2\<rparr>"
proof -
  from main_Inr [OF run] obtain its its' pp wa wb where
    f: "fetch_items sv1 (main_tickers sv1) [] w = (Inr its, wa)" and
    p: "port_pct (main_weights sv1 (main_tickers sv1)) (main_tickers sv1) its = Inr pp" and
    e: "enrich_items sv1 its wa = (Inr its', wb)" and
    w1: "w1 = (snd (now_utc_iso sv1 wb))\<lparr>latest_json :=
                  Some \<lparr>generated_at_utc = fst (now_utc_iso sv1 wb),
                        tickers = main_tickers sv1,
                        portfolio_pct = pp,
                        threshold_pct = Finite 5,
                        items = its'\<rparr>\<rparr>" by blast
  have tk: "main_tickers sv1 = main_tickers sv2" by (rule main_tickers_agree [OF env])
  have wt: "main_weights sv1 (main_tickers sv1) = main_weights sv2 (main_tickers sv2)"
    unfolding tk by (rule main_weights_agree [OF env b64 fsum])
  from f have f2: "fetch_items sv2 (main_tickers sv2) [] w = (Inr its, wa)"
    unfolding tk fetch_items_agree [OF dl iso] .
  from p have p2: "port_pct (main_weights sv2 (main_tickers sv2)) (main_tickers sv2) its = Inr pp"
    unfolding wt unfolding tk .
  obtain q wc where e2: "enrich_items sv2 its wa = (q, wc)" by (cases "enrich_items sv2 its wa")
  from enrich_items_agree [OF srch, of wa wa its] e e2 have "q = Inr its'" by simp
  with e2 have e2': "enrich_items sv2 its wa = (Inr its', wc)" by simp
  let ?r1 = "\<lparr>generated_at_utc = fst (now_utc_iso sv1 wb), tickers = main_tickers sv1,
               portfolio_pct = pp, threshold_pct = Finite 5, items = its'\<rparr>"
  let ?r2 = "\<lparr>generated_at_utc = fst (now_utc_iso sv2 wc), tickers = main_tickers sv2,
               portfolio_pct = pp, threshold_pct = Finite 5, items = its'\<rparr>"
  let ?w2 = "(snd (now_utc_iso sv2 wc))\<lparr>latest_json := Some ?r2\<rparr>"
  have m2: "main sv2 w = (Inr (), ?w2)" by (rule main_from_parts [OF f2 p2 e2'])
  have l1: "latest_json w1 = Some ?r1" by (simp add: w1)
  have l2: "latest_json ?w2 = Some ?r2" by simp
  have eq: "?r2 = ?r1\<lparr>generated_at_utc := generated_at_utc ?r2\<rparr>" by (simp add: tk)
  show ?thesis
    by (rule exI [where x = ?w2], rule exI [where x = ?r1], rule exI [where x = ?r2],
        intro conjI) (rule m2 l1 l2 eq)+
qed

theorem report_deterministic_witness:
  "\<exists>r1 r2. latest_json (snd (main scenario world0)) = Some r1
      \<and> latest_json (snd (main scenario_later world0)) = Some r2
      \<and> r2 = r1\<lparr>generated_at_utc := generated_at_utc r2\<rparr>
      \<and> generated_at_utc r1 = ''early'' \<and> generated_at_utc r2 = ''late''
      \<and> map end_date (searches (snd (main scenario world0))) = [''2024-01-02'']
      \<and> map end_date (searches (snd (main scenario_later world0))) = [''2024-01-03'']"
proof -
  have h: "environ scenario = environ scenario_later"
    "yf_download scenario = yf_download scenario_later"
    "isoformat scenario = isoformat scenario_later"
    "binary64 scenario = binary64 scenario_later"
    "float_sum scenario = float_sum scenario_later"
    by (simp_all add: scenario_later_def)
  have s: "\<forall>n f1 f2. keyword f1 = keyword f2
             \<longrightarrow> article_search scenario n f1 = article_search scenario_later n f2"
    by (simp add: scenario_later_def scenario_def)
  have "fst (main scenario world0) = Inr ()" by code_simp
  then have run: "main scenario world0 = (Inr (), snd (main scenario world0))"
    by (simp add: prod_eq_iff)
  from report_deterministic [OF h s run] obtain w2 r1 r2 where
    m2: "main scenario_later world0 = (Inr (), w2)" and
    l1: "latest_json (snd (main scenario world0)) = Some r1" and
    l2: "latest_json w2 = Some r2" and
    eq: "r2 = r1\<lparr>generated_at_utc := generated_at_utc r2\<rparr>" by blast
  from m2 l2 have l2': "latest_json (snd (main scenario_later world0)) = Some r2" by simp
  have g1: "map_option generated_at_utc (latest_json (snd (main scenario world0))) = Some ''early''"
    by code_simp
  have g2: "map_option generated_at_utc (latest_json (snd (main scenario_later world0))) = Some ''late''"
    by code_simp
  have d1: "map end_date (searches (snd (main scenario world0))) = [''2024-01-02'']"
    by code_simp
  have d2: "map end_date (searches (snd (main scenario_later world0))) = [''2024-01-03'']"
    by code_simp
  from l1 g1 have a: "generated_at_utc r1 = ''early''" by simp
  from l2' g2 have b: "generated_at_utc r2 = ''late''" by simp
  show ?thesis
    by (rule exI [where x = r1], rule exI [where x = r2], intro conjI)
       (rule l1 l2' eq a b d1 d2)+
qed

text \<open>
  Claim C10. When the search returns nothing or an empty frame without raising,
  \<open>fetch_news_gdelt\<close> returns the empty list, so an item for which news was due ends with
  \<open>news = []\<close> exactly as an item below the threshold does.
\<close>

theorem empty_search_gives_empty_news:
  assumes "article_search sv (length (searches w)) (fst (gdelt_filters sv query 72 w)) = res"
    and "res = SearchNone \<or> (\<exists>a. res = SearchFrame a \<and> rows a = [])"
  shows "fst (fetch_news_gdelt sv query 72 5 w) = []
       \<and> fst (fetch_news_gdelt sv query 72 5 w) \<noteq> [[(''error'', msg_news_failed @ e)]]
       \<and> (snapshot_for query it \<and> news_due it
            \<longrightarrow> fst (enrich_item sv it w) = Inr (it @ [(''news'', PNews [])]))
       \<and> (snapshot_for t it' \<and> \<not> news_due it'
            \<longrightarrow> fst (enrich_item sv it' w) = Inr (it' @ [(''news'', PNews [])]))"
proof -
  from assms have n: "fst (fetch_news_gdelt sv query 72 5 w) = []"
    by (simp add: fetch_news_gdelt_eq news_of_empty)
  have due: "fst (enrich_item sv it w) = Inr (it @ [(''news'', PNews [])])"
    if "snapshot_for query it" "news_due it"
    using enrich_item_snapshot [OF that(1), of sv w] that(2) n by simp
  have quiet: "fst (enrich_item sv it' w) = Inr (it' @ [(''news'', PNews [])])"
    if "snapshot_for t it'" "\<not> news_due it'"
    using enrich_item_snapshot [OF that(1), of sv w] that(2) by simp
  from n due quiet show ?thesis by simp
qed

theorem empty_search_gives_empty_news_witness:
  "article_search weighted_scenario (length (searches world0))
       (fst (gdelt_filters weighted_scenario ''A'' 72 world0)) = SearchNone
   \<and> fst (fetch_news_gdelt weighted_scenario ''A'' 72 5 world0) = []
   \<and> fst (enrich_item weighted_scenario
            [(''ticker'', PStr ''A''), (''open'', PFloat (Finite 10)), (''last'', PFloat (Finite 11)),
             (''pct'', PFloat (Finite 10)), (''last_timestamp_utc'', PStr ''T'')] world0)
       = Inr [(''ticker'', PStr ''A''), (''open'', PFloat (Finite 10)), (''last'', PFloat (Finite 11)),
              (''pct'', PFloat (Finite 10)), (''last_timestamp_utc'', PStr ''T''),
              (''news'', PNews [])]
   \<and> fst (enrich_item weighted_scenario
            [(''ticker'', PStr ''A''), (''error'', PStr ''none'')] world0)
       = Inr [(''ticker'', PStr ''A''), (''error'', PStr ''none''), (''news'', PNews [])]"
proof -
  let ?it = "[(''ticker'', PStr ''A''), (''open'', PFloat (Finite 10)), (''last'', PFloat (Finite 11)),
             (''pct'', PFloat (Finite 10)), (''last_timestamp_utc'', PStr ''T'')]"
  let ?er = "[(''ticker'', PStr ''A''), (''error'', PStr ''none'')]"
  have a: "article_search weighted_scenario (length (searches world0))
       (fst (gdelt_filters weighted_scenario ''A'' 72 world0)) = SearchNone"
    by (simp add: weighted_scenario_def)
  have s1: "snapshot_for ''A'' ?it \<and> news_due ?it"
    by (simp add: snapshot_for_def news_due_def dict_get_def fge_def)
  have s2: "snapshot_for ''A'' ?er \<and> \<not> news_due ?er"
    by (simp add: snapshot_for_def error_snapshot_def news_due_def dict_get_def)
  from empty_search_gives_empty_news [OF a, where it = ?it and t = "''A''" and it' = ?er] s1 s2 a
  show ?thesis by simp
qed

end
